theory Spec2Isabelle
  imports Main "HOL-Library.Word" "HOL-Library.AList"
begin

section \<open>The external serializer and oracle\<close>

text \<open>
  The package \<^verbatim>\<open>@bhoos/serialization\<close> (\<^verbatim>\<open>BufferSerializer\<close>, \<^verbatim>\<open>Oracle\<close>) is imported by
  \<^verbatim>\<open>UdpStream.ts\<close> and \<^verbatim>\<open>UdpSocket.ts\<close> but is not part of the repository. The oracle is a
  parameter of every function below. The serializer is a cursor over a byte buffer:
  a 16-bit read or write moves it by two bytes (most significant byte first) and raises
  when it would leave the buffer, or when the value written does not fit 16 bits.
\<close>

type_synonym byte = "8 word"

datatype exn = RangeError | OracleError | TypeError

record 'm Oracle =
  decode :: "nat \<Rightarrow> byte list \<Rightarrow> ('m \<times> nat) option"
  encode :: "nat \<Rightarrow> 'm \<Rightarrow> byte list option"
  identify :: "'m \<Rightarrow> nat"

text \<open>
  \<^item> \<open>decode orc v bs\<close> is \<^verbatim>\<open>oracle.serialize(serializer, null)\<close> on a reading serializer of
    version \<open>v\<close> whose unread bytes are \<open>bs\<close>: the item and the number of bytes it
    took, or \<open>None\<close> when the call raises.
  \<^item> \<open>encode orc v m\<close> is \<^verbatim>\<open>oracle.serialize(serializer, m)\<close> on a writing serializer: the
    bytes of the payload, or \<open>None\<close> when the oracle raises.
\<close>

definition be16 :: "nat \<Rightarrow> byte list" where
  "be16 v = [of_nat (v div 256), of_nat (v mod 256)]"

definition read_uint16 :: "byte list \<Rightarrow> (nat \<times> byte list) option" where
  "read_uint16 bs =
     (case bs of
        hi # lo # rest \<Rightarrow> Some (256 * unat hi + unat lo, rest)
      | _ \<Rightarrow> None)"

record Writer =
  wversion :: nat
  out :: "byte list"
  cap :: nat

definition write_uint8 :: "nat \<Rightarrow> Writer \<Rightarrow> Writer option" where
  "write_uint8 v w =
     (if 255 < v \<or> cap w < length (out w) + 1 then None
      else Some (w\<lparr>out := out w @ [of_nat v]\<rparr>))"

definition write_uint16 :: "nat \<Rightarrow> Writer \<Rightarrow> Writer option" where
  "write_uint16 v w =
     (if 65535 < v \<or> cap w < length (out w) + 2 then None
      else Some (w\<lparr>out := out w @ be16 v\<rparr>))"

definition write_item :: "'m Oracle \<Rightarrow> 'm \<Rightarrow> Writer \<Rightarrow> Writer option" where
  "write_item orc m w =
     (case encode orc (wversion w) m of
        None \<Rightarrow> None
      | Some bs \<Rightarrow>
          if cap w < length (out w) + length bs then None
          else Some (w\<lparr>out := out w @ bs\<rparr>))"

text \<open>\<^verbatim>\<open>serializer.mark()\<close> records the cursor; the function it returns puts it back.\<close>

definition mark :: "Writer \<Rightarrow> nat" where
  "mark w = length (out w)"

definition revert :: "nat \<Rightarrow> Writer \<Rightarrow> Writer" where
  "revert k w = w\<lparr>out := take k (out w)\<rparr>"

section \<open>UdpStream (src/UdpStream.ts)\<close>

definition MAX_RETRY_INTERVAL :: nat where
  "MAX_RETRY_INTERVAL = 3000"

definition MIN_RETRY_INTERVAL :: nat where
  "MIN_RETRY_INTERVAL = 500"

record EndPoint =
  port :: nat
  address :: string

text \<open>
  The two handles are kept as flags: \<open>True\<close> while a \<^verbatim>\<open>setImmediate\<close> / \<^verbatim>\<open>setTimeout\<close>
  handle is stored in the field. \<open>onClose\<close> holds the callback until \<^verbatim>\<open>end()\<close> takes it;
  \<open>'c\<close> is what the callback is.
\<close>

record ('m, 'c) UdpStream =
  items :: "(nat \<times> 'm) list"
  localSeq :: nat
  remoteSeq :: nat
  remote :: EndPoint
  version :: nat
  sendHandle :: bool
  retryHandle :: bool
  retryInterval :: nat
  attempts :: nat
  maxAttempts :: nat
  closing :: bool
  onClose :: "'c option"

text \<open>
  What a call on the stream makes visible outside it: the item handler of \<^verbatim>\<open>receive\<close>
  called with an item (tagged with the sequence number it was read under), the
  \<open>onClose\<close> callback called, a datagram handed to the transport.
\<close>

datatype ('m, 'c) event =
    Delivered nat 'm
  | Closed 'c
  | Transmit EndPoint "byte list"

text \<open>
  An item handler runs inside the loop of \<^verbatim>\<open>receive\<close> and may call the public methods of
  the stream before it returns or raises. It is modelled by the calls it makes and the
  exception it ends with, if any; both may depend on the state the stream is in when the
  handler is called.
\<close>

datatype 'm call = CallSend "'m option" | CallClose | CallEnd

definition new_stream :: "EndPoint \<Rightarrow> nat \<Rightarrow> 'c \<Rightarrow> ('m, 'c) UdpStream" where
  "new_stream r v k =
     \<lparr>items = [], localSeq = 0, remoteSeq = 0, remote = r, version = v,
      sendHandle = False, retryHandle = False, retryInterval = MIN_RETRY_INTERVAL,
      attempts = 0, maxAttempts = 10, closing = False, onClose = Some k\<rparr>"

definition end_stream :: "('m, 'c) UdpStream \<Rightarrow> ('m, 'c) UdpStream \<times> ('m, 'c) event list" where
  "end_stream s =
     (s\<lparr>closing := True, retryHandle := False, sendHandle := False, onClose := None\<rparr>,
      (case onClose s of None \<Rightarrow> [] | Some k \<Rightarrow> [Closed k]))"

definition send :: "'m option \<Rightarrow> ('m, 'c) UdpStream \<Rightarrow> ('m, 'c) UdpStream \<times> ('m, 'c) event list" where
  "send item s =
     (let s1 = (case item of
                  None \<Rightarrow> s
                | Some m \<Rightarrow>
                    if \<not> closing s
                    then s\<lparr>localSeq := localSeq s + 1,
                           items := items s @ [(localSeq s + 1, m)]\<rparr>
                    else s)
      in if sendHandle s1 then (s1, [])
         else if maxAttempts s1 \<le> attempts s1 then end_stream s1
         else (s1\<lparr>sendHandle := True\<rparr>, []))"

definition close :: "('m, 'c) UdpStream \<Rightarrow> ('m, 'c) UdpStream \<times> ('m, 'c) event list" where
  "close s =
     (if closing s then (s, [])
      else send None (s\<lparr>closing := True, maxAttempts := 5\<rparr>))"

subsection \<open>serialize\<close>

text \<open>
  The \<^verbatim>\<open>for\<close> loop of \<^verbatim>\<open>serialize\<close>: the writer and the counter \<^verbatim>\<open>remaining\<close> are threaded
  through; the \<^verbatim>\<open>catch\<close> branch reverts the writer it finds and leaves the loop.
\<close>

fun serialize_items ::
  "'m Oracle \<Rightarrow> (nat \<times> 'm) list \<Rightarrow> Writer \<Rightarrow> nat \<Rightarrow> Writer \<times> nat" where
  "serialize_items orc [] w remaining = (w, remaining)"
| "serialize_items orc (k # ks) w remaining =
     (let rv = mark w in
      case write_uint16 (fst k) w of
        None \<Rightarrow> (revert rv w, remaining)
      | Some w1 \<Rightarrow>
          (case write_item orc (snd k) w1 of
             None \<Rightarrow> (revert rv w1, remaining)
           | Some w2 \<Rightarrow> serialize_items orc ks w2 (remaining - 1)))"

definition serialize :: "'m Oracle \<Rightarrow> ('m, 'c) UdpStream \<Rightarrow> Writer \<Rightarrow> exn + Writer" where
  "serialize orc s w =
     (case write_uint16 (remoteSeq s) w of
        None \<Rightarrow> Inl RangeError
      | Some w0 \<Rightarrow>
          (case serialize_items orc (items s) w0 (length (items s)) of
             (w1, remaining) \<Rightarrow>
               (case write_uint16 (if closing s \<and> remaining = 0 then 65535 else 0) w1 of
                  None \<Rightarrow> Inl RangeError
                | Some w2 \<Rightarrow> Inr w2)))"

text \<open>\<^verbatim>\<open>UdpSocket.sendStream\<close>: the datagram built for a stream (tag byte, then the frame).\<close>

definition GENERAL :: nat where
  "GENERAL = 0"

definition STREAM :: nat where
  "STREAM = 1"

definition sendStream :: "'m Oracle \<Rightarrow> ('m, 'c) UdpStream \<Rightarrow> exn + byte list" where
  "sendStream orc s =
     (case write_uint8 STREAM \<lparr>wversion = version s, out = [], cap = 1000\<rparr> of
        None \<Rightarrow> Inl RangeError
      | Some w \<Rightarrow>
          (case serialize orc s w of
             Inl e \<Rightarrow> Inl e
           | Inr w' \<Rightarrow> Inr (out w')))"

text \<open>
  The callback that \<^verbatim>\<open>send\<close> gives to \<^verbatim>\<open>setImmediate\<close>. When \<^verbatim>\<open>sendStream\<close> raises, the
  callback is left at that point: the handle stays in the field.
\<close>

definition send_tick ::
  "'m Oracle \<Rightarrow> ('m, 'c) UdpStream \<Rightarrow> ('m, 'c) UdpStream \<times> ('m, 'c) event list \<times> exn option" where
  "send_tick orc s =
     (let s1 = s\<lparr>attempts := attempts s + 1\<rparr> in
      case sendStream orc s1 of
        Inl e \<Rightarrow> (s1, [], Some e)
      | Inr d \<Rightarrow>
          (let s2 = s1\<lparr>sendHandle := False\<rparr> in
           if items s2 \<noteq> [] \<or> closing s2
           then (s2\<lparr>retryHandle := True,
                    retryInterval := (if retryInterval s2 < MAX_RETRY_INTERVAL
                                      then retryInterval s2 + 500 else retryInterval s2)\<rparr>,
                 [Transmit (remote s) d], None)
           else (s2\<lparr>attempts := 0\<rparr>, [Transmit (remote s) d], None)))"

subsection \<open>receive\<close>

text \<open>The \<^verbatim>\<open>while\<close> loop that drops acknowledged items from the head of the queue.\<close>

fun shift_acked :: "(nat \<times> 'm) list \<Rightarrow> nat \<Rightarrow> (nat \<times> 'm) list" where
  "shift_acked [] remoteAck = []"
| "shift_acked (k # ks) remoteAck =
     (if remoteAck < fst k then k # ks else shift_acked ks remoteAck)"

fun run_call :: "'m call \<Rightarrow> ('m, 'c) UdpStream \<Rightarrow> ('m, 'c) UdpStream \<times> ('m, 'c) event list" where
  "run_call (CallSend item) s = send item s"
| "run_call CallClose s = close s"
| "run_call CallEnd s = end_stream s"

fun run_calls :: "'m call list \<Rightarrow> ('m, 'c) UdpStream \<Rightarrow> ('m, 'c) UdpStream \<times> ('m, 'c) event list" where
  "run_calls [] s = (s, [])"
| "run_calls (c # cs) s =
     (case run_call c s of
        (s1, e1) \<Rightarrow> (case run_calls cs s1 of (s2, e2) \<Rightarrow> (s2, e1 @ e2)))"

text \<open>
  The \<^verbatim>\<open>do ... while (true)\<close> loop of \<^verbatim>\<open>receive\<close> over the unread bytes of the frame. The
  result is the stream, the callbacks made, and the exception that ended the loop if one
  did. A sequence number that is not new takes the last branch: nothing is read after it
  and the loop goes round.
\<close>

function receive_loop ::
  "'m Oracle \<Rightarrow> ('m \<Rightarrow> ('m, 'c) UdpStream \<Rightarrow> 'm call list \<times> exn option)
     \<Rightarrow> ('m, 'c) UdpStream \<Rightarrow> byte list
     \<Rightarrow> ('m, 'c) UdpStream \<times> ('m, 'c) event list \<times> exn option" where
  "receive_loop orc handler s bs =
     (case read_uint16 bs of
        None \<Rightarrow> (s, [], Some RangeError)
      | Some (seq, rest) \<Rightarrow>
          if seq = 0 then (s, [], None)
          else if seq = 65535 then
            (case close (s\<lparr>remoteSeq := seq\<rparr>) of
               (s1, e1) \<Rightarrow> (s1\<lparr>maxAttempts := 1\<rparr>, e1, None))
          else if remoteSeq s < seq then
            (case (if \<not> sendHandle s then send None s else (s, [])) of
               (s1, e1) \<Rightarrow>
                 (case decode orc (version s) rest of
                    None \<Rightarrow> (s1\<lparr>remoteSeq := seq\<rparr>, e1, Some OracleError)
                  | Some (item, n) \<Rightarrow>
                      (case handler item (s1\<lparr>remoteSeq := seq\<rparr>) of
                         (calls, raised) \<Rightarrow>
                           (case run_calls calls (s1\<lparr>remoteSeq := seq\<rparr>) of
                              (s2, e2) \<Rightarrow>
                                (case raised of
                                   Some e \<Rightarrow> (s2, e1 @ [Delivered seq item] @ e2, Some e)
                                 | None \<Rightarrow>
                                     (case receive_loop orc handler s2 (drop n rest) of
                                        (s3, e3, x) \<Rightarrow>
                                          (s3, e1 @ [Delivered seq item] @ e2 @ e3, x)))))))
          else receive_loop orc handler s rest)"
  by pat_completeness auto
termination
  by (relation "measure (\<lambda>(orc, handler, s, bs). length bs)")
     (auto simp: read_uint16_def split: list.splits)

definition receive ::
  "'m Oracle \<Rightarrow> ('m \<Rightarrow> ('m, 'c) UdpStream \<Rightarrow> 'm call list \<times> exn option)
     \<Rightarrow> ('m, 'c) UdpStream \<Rightarrow> byte list
     \<Rightarrow> ('m, 'c) UdpStream \<times> ('m, 'c) event list \<times> exn option" where
  "receive orc handler s bs =
     (case read_uint16 bs of
        None \<Rightarrow> (s, [], Some RangeError)
      | Some (remoteAck, rest) \<Rightarrow>
          (let s1 = s\<lparr>items := shift_acked (items s) remoteAck, attempts := 0\<rparr> in
           if remoteAck = 65535 then
             (case end_stream s1 of (s2, e) \<Rightarrow> (s2, e, None))
           else receive_loop orc handler
                  (s1\<lparr>retryInterval := MIN_RETRY_INTERVAL, retryHandle := False\<rparr>) rest))"

declare receive_loop.simps [simp del]

section \<open>UdpSocket (src/UdpSocket.ts)\<close>

text \<open>The decimal digits of a number, as the template string renders the port.\<close>

fun digits :: "nat \<Rightarrow> string" where
  "digits n =
     (if n < 10 then [''0123456789'' ! n]
      else digits (n div 10) @ [''0123456789'' ! (n mod 10)])"

definition getEndPointId :: "EndPoint \<Rightarrow> string" where
  "getEndPointId endpoint = address endpoint @ '':'' @ digits (port endpoint)"

text \<open>
  Stream objects live in a store and are referred to by their key, so that the test
  \<^verbatim>\<open>ep.stream === stream\<close> is a comparison of keys. The two closures that the socket passes
  as \<open>onClose\<close> are the two constructors of \<open>on_close\<close>, with the variables they capture.
\<close>

datatype on_close = ClientClose nat | ServerClose string nat

text \<open>
  Handlers registered by the application are opaque: a call is recorded with the name the
  handler was registered under. A stream handler is handed the stream, so it is
  registered together with the calls it makes on it.
\<close>

datatype ('m, 'u) sevent =
    HandlerCalled string 'm
  | StreamHandlerCalled string 'm "'u option" "nat option"
  | ConnectHandlerCalled string 'm nat
  | RaiseError
  | CloseHandlerCalled string "'u option" nat
  | OpenHandlerCalled string 'u nat
  | TransportSend EndPoint "byte list"
  | TransportClosed

text \<open>
  \<open>sversion\<close>, \<open>soracle\<close> and \<open>sclosing\<close> are the fields \<^verbatim>\<open>version\<close>, \<^verbatim>\<open>oracle\<close> and
  \<^verbatim>\<open>closing\<close> of the socket;
  \<open>streams\<close> is \<open>None\<close> until \<^verbatim>\<open>listen\<close> creates the \<^verbatim>\<open>Map\<close>, which is kept in insertion
  order. \<open>openHandler\<close> exists only in the later revision of the socket
  (\<^verbatim>\<open>onOpen\<close>), where it is called on registration.
\<close>

record ('m, 'u) UdpSocket =
  sversion :: nat
  soracle :: "'m Oracle"
  handlers :: "nat \<rightharpoonup> string"
  streamHandlers :: "nat \<rightharpoonup> string \<times> ('m \<Rightarrow> 'm call list)"
  connectHandlers :: "nat \<rightharpoonup> string"
  closeHandler :: "string option"
  openHandler :: "string option"
  stream :: "nat option"
  streams :: "(string \<times> nat \<times> 'u) list option"
  sclosing :: bool
  heap :: "nat \<rightharpoonup> ('m, on_close) UdpStream"
  next_ref :: nat
  transport_open :: bool

definition new_socket :: "'m Oracle \<Rightarrow> nat \<Rightarrow> ('m, 'u) UdpSocket" where
  "new_socket orc v =
     \<lparr>sversion = v, soracle = orc, handlers = Map.empty, streamHandlers = Map.empty,
      connectHandlers = Map.empty, closeHandler = None, openHandler = None,
      stream = None, streams = None, sclosing = False, heap = Map.empty, next_ref = 0,
      transport_open = True\<rparr>"

definition listen :: "('m, 'u) UdpSocket \<Rightarrow> ('m, 'u) UdpSocket" where
  "listen k = k\<lparr>streams := Some []\<rparr>"

definition on :: "nat \<Rightarrow> string \<Rightarrow> ('m, 'u) UdpSocket \<Rightarrow> ('m, 'u) UdpSocket" where
  "on ident handler k = k\<lparr>handlers := (handlers k)(ident \<mapsto> handler)\<rparr>"

definition onConnect :: "nat \<Rightarrow> string \<Rightarrow> ('m, 'u) UdpSocket \<Rightarrow> ('m, 'u) UdpSocket" where
  "onConnect ident handler k = k\<lparr>connectHandlers := (connectHandlers k)(ident \<mapsto> handler)\<rparr>"

definition onStream ::
  "nat \<Rightarrow> string \<times> ('m \<Rightarrow> 'm call list) \<Rightarrow> ('m, 'u) UdpSocket \<Rightarrow> ('m, 'u) UdpSocket" where
  "onStream ident handler k = k\<lparr>streamHandlers := (streamHandlers k)(ident \<mapsto> handler)\<rparr>"

definition connect ::
  "EndPoint \<Rightarrow> nat \<Rightarrow> 'm \<Rightarrow> ('m, 'u) UdpSocket \<Rightarrow> ('m, 'u) UdpSocket" where
  "connect endpoint v message k =
     (let r = next_ref k;
          st = fst (send (Some message) (new_stream endpoint v (ClientClose r)))
      in k\<lparr>stream := Some r, heap := (heap k)(r \<mapsto> st), next_ref := r + 1\<rparr>)"

definition socket_end :: "('m, 'u) UdpSocket \<Rightarrow> ('m, 'u) UdpSocket \<times> ('m, 'u) sevent list" where
  "socket_end k = (k\<lparr>transport_open := False\<rparr>, [TransportClosed])"

definition handleClose ::
  "'u option \<Rightarrow> nat \<Rightarrow> ('m, 'u) UdpSocket \<Rightarrow> ('m, 'u) UdpSocket \<times> ('m, 'u) sevent list" where
  "handleClose userData r k =
     (let e1 = (case closeHandler k of
                  None \<Rightarrow> []
                | Some handler \<Rightarrow> [CloseHandlerCalled handler userData r])
      in if sclosing k \<and> stream k = None \<and> (streams k = None \<or> streams k = Some [])
         then (case socket_end k of (k', e2) \<Rightarrow> (k', e1 @ e2))
         else (k, e1))"

text \<open>
  The \<open>onClose\<close> closures of \<^verbatim>\<open>connect\<close> and of the branch of \<^verbatim>\<open>handleMessage\<close> that creates
  a stream. The second reads \<^verbatim>\<open>ep.stream\<close> without testing \<^verbatim>\<open>ep\<close>: when the remote has no
  entry, that is a \<^verbatim>\<open>TypeError\<close>.
\<close>

fun run_on_close ::
  "on_close \<Rightarrow> ('m, 'u) UdpSocket
     \<Rightarrow> ('m, 'u) UdpSocket \<times> ('m, 'u) sevent list \<times> exn option" where
  "run_on_close (ClientClose r) k =
     (case handleClose None r (k\<lparr>stream := None, sclosing := True\<rparr>) of
        (k', ev) \<Rightarrow> (k', ev, None))"
| "run_on_close (ServerClose remoteId r) k =
     (case streams k of
        None \<Rightarrow> (k, [], Some TypeError)
      | Some tbl \<Rightarrow>
          (case map_of tbl remoteId of
             None \<Rightarrow> (k, [], Some TypeError)
           | Some (r', userData) \<Rightarrow>
               if r' = r
               then (case handleClose (Some userData) r
                            (k\<lparr>streams := Some (AList.delete remoteId tbl)\<rparr>) of
                       (k', ev) \<Rightarrow> (k', ev, None))
               else (k, [], None)))"

text \<open>
  What the callbacks made by a stream do to the socket, in the order they were made;
  \<open>deliver\<close> is the item handler that the socket passed to \<^verbatim>\<open>receive\<close>.
\<close>

fun dispatch ::
  "(('m, 'u) UdpSocket \<Rightarrow> 'm \<Rightarrow> ('m, 'u) sevent) \<Rightarrow> ('m, on_close) event list
     \<Rightarrow> ('m, 'u) UdpSocket
     \<Rightarrow> ('m, 'u) UdpSocket \<times> ('m, 'u) sevent list \<times> exn option" where
  "dispatch deliver [] k = (k, [], None)"
| "dispatch deliver (Delivered seq item # ev) k =
     (case dispatch deliver ev k of (k', es, x) \<Rightarrow> (k', deliver k item # es, x))"
| "dispatch deliver (Transmit r d # ev) k =
     (case dispatch deliver ev k of (k', es, x) \<Rightarrow> (k', TransportSend r d # es, x))"
| "dispatch deliver (Closed c # ev) k =
     (case run_on_close c k of
        (k1, e1, Some e) \<Rightarrow> (k1, e1, Some e)
      | (k1, e1, None) \<Rightarrow>
          (case dispatch deliver ev k1 of (k2, e2, x) \<Rightarrow> (k2, e1 @ e2, x)))"

text \<open>
  The item handlers that \<^verbatim>\<open>handleMessage\<close> passes to \<^verbatim>\<open>receive\<close>. Each is given twice: the
  calls it makes on the stream and the exception it ends with (the handler of
  \<^verbatim>\<open>receive_loop\<close>), and the call of the registered handler it stands for (\<open>deliver\<close> of
  \<open>dispatch\<close>). Registered handlers do not raise by themselves.

  The handler of the client branch passes \<^verbatim>\<open>this.stream\<close>, read when the handler is called.
  The \<open>onClose\<close> closure of a client stream sets that field to \<^verbatim>\<open>null\<close>; so once the
  closure has run during this very \<^verbatim>\<open>receive\<close> (\<open>stream_gone\<close>: the stream entered with a
  client closure in its field and the field is now empty), the registered handler is
  handed \<^verbatim>\<open>null\<close>, and its first call on it is a \<^verbatim>\<open>TypeError\<close>. The handler of the branch
  for a registered remote passes the stream it looked up, and the connect handler the
  stream it created.
\<close>

definition stream_gone :: "('m, on_close) UdpStream \<Rightarrow> ('m, on_close) UdpStream \<Rightarrow> bool" where
  "stream_gone st0 st =
     (case onClose st0 of
        Some (ClientClose r) \<Rightarrow> onClose st = None
      | _ \<Rightarrow> False)"

definition client_calls ::
  "('m, 'u) UdpSocket \<Rightarrow> ('m, on_close) UdpStream \<Rightarrow> 'm \<Rightarrow> ('m, on_close) UdpStream
     \<Rightarrow> 'm call list \<times> exn option" where
  "client_calls k st0 item st =
     (case streamHandlers k (identify (soracle k) item) of
        None \<Rightarrow> ([], None)
      | Some (name, calls) \<Rightarrow>
          if stream_gone st0 st
          then (if calls item = [] then ([], None) else ([], Some TypeError))
          else (calls item, None))"

definition client_deliver :: "('m, 'u) UdpSocket \<Rightarrow> 'm \<Rightarrow> ('m, 'u) sevent" where
  "client_deliver k item =
     (case streamHandlers k (identify (soracle k) item) of
        None \<Rightarrow> RaiseError
      | Some (name, calls) \<Rightarrow> StreamHandlerCalled name item None (stream k))"

definition stream_calls ::
  "('m, 'u) UdpSocket \<Rightarrow> 'm \<Rightarrow> ('m, on_close) UdpStream \<Rightarrow> 'm call list \<times> exn option" where
  "stream_calls k item st =
     (case streamHandlers k (identify (soracle k) item) of
        None \<Rightarrow> ([], None)
      | Some (name, calls) \<Rightarrow> (calls item, None))"

definition stream_deliver ::
  "'u \<Rightarrow> nat \<Rightarrow> ('m, 'u) UdpSocket \<Rightarrow> 'm \<Rightarrow> ('m, 'u) sevent" where
  "stream_deliver userData r k item =
     (case streamHandlers k (identify (soracle k) item) of
        None \<Rightarrow> RaiseError
      | Some (name, calls) \<Rightarrow> StreamHandlerCalled name item (Some userData) (Some r))"

definition connect_calls ::
  "('m, 'u) UdpSocket \<Rightarrow> 'm \<Rightarrow> ('m, on_close) UdpStream \<Rightarrow> 'm call list \<times> exn option" where
  "connect_calls k msg st =
     (case connectHandlers k (identify (soracle k) msg) of
        None \<Rightarrow> ([CallClose], None)
      | Some handler \<Rightarrow> ([], None))"

definition connect_deliver :: "nat \<Rightarrow> ('m, 'u) UdpSocket \<Rightarrow> 'm \<Rightarrow> ('m, 'u) sevent" where
  "connect_deliver r k msg =
     (case connectHandlers k (identify (soracle k) msg) of
        None \<Rightarrow> RaiseError
      | Some handler \<Rightarrow> ConnectHandlerCalled handler msg r)"

text \<open>
  \<^verbatim>\<open>stream.receive(serializer, handler)\<close> on the stream object \<open>st\<close> stored under \<open>r\<close>: the
  object is updated in the store, the callbacks act on the socket, and the exception of
  \<^verbatim>\<open>receive\<close>, if any, leaves \<^verbatim>\<open>handleMessage\<close>.
\<close>

definition feed ::
  "('m, 'u) UdpSocket \<Rightarrow> nat \<Rightarrow> ('m, on_close) UdpStream
     \<Rightarrow> ('m \<Rightarrow> ('m, on_close) UdpStream \<Rightarrow> 'm call list \<times> exn option)
     \<Rightarrow> (('m, 'u) UdpSocket \<Rightarrow> 'm \<Rightarrow> ('m, 'u) sevent) \<Rightarrow> byte list
     \<Rightarrow> ('m, 'u) UdpSocket \<times> ('m, 'u) sevent list \<times> exn option" where
  "feed k r st calls deliver payload =
     (case receive (soracle k) calls st payload of
        (st', ev, x) \<Rightarrow>
          (case dispatch deliver ev (k\<lparr>heap := (heap k)(r \<mapsto> st')\<rparr>) of
             (k', es, Some e) \<Rightarrow> (k', es, Some e)
           | (k', es, None) \<Rightarrow> (k', es, x)))"

definition handleMessage ::
  "('m, 'u) UdpSocket \<Rightarrow> byte list \<Rightarrow> EndPoint
     \<Rightarrow> ('m, 'u) UdpSocket \<times> ('m, 'u) sevent list \<times> exn option" where
  "handleMessage k data rinfo =
     (case data of
        [] \<Rightarrow> (k, [], None)
      | type # payload \<Rightarrow>
          if unat type = GENERAL then
            (case decode (soracle k) (sversion k) payload of
               None \<Rightarrow> (k, [], Some OracleError)
             | Some (obj, n) \<Rightarrow>
                 (case handlers k (identify (soracle k) obj) of
                    None \<Rightarrow> (k, [], Some TypeError)
                  | Some handler \<Rightarrow> (k, [HandlerCalled handler obj], None)))
          else if unat type = STREAM then
            (case stream k of
               Some r \<Rightarrow>
                 (case heap k r of
                    None \<Rightarrow> (k, [], Some TypeError)
                  | Some st \<Rightarrow> feed k r st (client_calls k st) client_deliver payload)
             | None \<Rightarrow>
                 (case streams k of
                    None \<Rightarrow> (k, [], Some TypeError)
                  | Some tbl \<Rightarrow>
                      (let remoteId = getEndPointId rinfo in
                       case map_of tbl remoteId of
                         None \<Rightarrow>
                           (let r = next_ref k;
                                st = new_stream rinfo 0 (ServerClose remoteId r)
                            in feed (k\<lparr>next_ref := r + 1\<rparr>) r st
                                 (connect_calls k) (connect_deliver r) payload)
                       | Some (r, userData) \<Rightarrow>
                           (case heap k r of
                              None \<Rightarrow> (k, [], Some TypeError)
                            | Some st \<Rightarrow>
                                feed k r st (stream_calls k)
                                  (stream_deliver userData r) payload))))
          else (k, [], None))"

text \<open>\<^verbatim>\<open>stream.end()\<close> on the stream object stored under \<open>r\<close>.\<close>

definition stream_end ::
  "('m, 'u) UdpSocket \<Rightarrow> nat
     \<Rightarrow> ('m, 'u) UdpSocket \<times> ('m, 'u) sevent list \<times> exn option" where
  "stream_end k r =
     (case heap k r of
        None \<Rightarrow> (k, [], Some TypeError)
      | Some st \<Rightarrow>
          (case end_stream st of
             (st', ev) \<Rightarrow>
               dispatch (\<lambda>k item. RaiseError) ev (k\<lparr>heap := (heap k)(r \<mapsto> st')\<rparr>)))"

text \<open>
  The rest of the connect item handler after \<^verbatim>\<open>await connectHandler(msg, stream)\<close> has
  resolved with \<open>userData\<close> (\<open>None\<close> for a falsy value), for the stream stored under \<open>r\<close>.
\<close>

definition connect_resolved ::
  "('m, 'u) UdpSocket \<Rightarrow> string \<Rightarrow> nat \<Rightarrow> 'u option
     \<Rightarrow> ('m, 'u) UdpSocket \<times> ('m, 'u) sevent list \<times> exn option" where
  "connect_resolved k remoteId r userData =
     (case userData of
        None \<Rightarrow> stream_end k r
      | Some ud \<Rightarrow>
          (case streams k of
             None \<Rightarrow> (k, [], Some TypeError)
           | Some tbl \<Rightarrow>
               if map_of tbl remoteId = None
               then (k\<lparr>streams := Some (AList.update remoteId (r, ud) tbl)\<rparr>, [], None)
               else stream_end k r))"

text \<open>The same in the later revision of the socket, which has an open handler.\<close>

definition connect_resolved_open ::
  "('m, 'u) UdpSocket \<Rightarrow> string \<Rightarrow> nat \<Rightarrow> 'u option
     \<Rightarrow> ('m, 'u) UdpSocket \<times> ('m, 'u) sevent list \<times> exn option" where
  "connect_resolved_open k remoteId r userData =
     (case userData of
        None \<Rightarrow> stream_end k r
      | Some ud \<Rightarrow>
          (case streams k of
             None \<Rightarrow> (k, [], Some TypeError)
           | Some tbl \<Rightarrow>
               if map_of tbl remoteId = None
               then (k\<lparr>streams := Some (AList.update remoteId (r, ud) tbl)\<rparr>,
                     (case openHandler k of
                        None \<Rightarrow> []
                      | Some handler \<Rightarrow> [OpenHandlerCalled handler ud r]),
                     None)
               else stream_end k r))"

section \<open>Notions used in the statements\<close>

text \<open>
  The frame in the words of the wire format. \<open>item_bytes\<close> is one item on the wire, its
  seq as 16 bits followed by its payload, when there is such a thing: the seq fits 16 bits
  and the oracle encodes the payload. \<open>written_items\<close> are the items that go into a frame
  with \<open>room\<close> free bytes: those from the head of the queue up to the first one that has
  no encoding or does not fit. \<open>items_bytes\<close> is the bytes of a list of items.
\<close>

definition item_bytes :: "'m Oracle \<Rightarrow> nat \<Rightarrow> nat \<times> 'm \<Rightarrow> byte list option" where
  "item_bytes orc v k =
     (if 65535 < fst k then None
      else map_option (\<lambda>payload. be16 (fst k) @ payload) (encode orc v (snd k)))"

fun written_items :: "'m Oracle \<Rightarrow> nat \<Rightarrow> nat \<Rightarrow> (nat \<times> 'm) list \<Rightarrow> (nat \<times> 'm) list" where
  "written_items orc v room [] = []"
| "written_items orc v room (k # ks) =
     (case item_bytes orc v k of
        None \<Rightarrow> []
      | Some b \<Rightarrow>
          if room < length b then []
          else k # written_items orc v (room - length b) ks)"

fun items_bytes :: "'m Oracle \<Rightarrow> nat \<Rightarrow> (nat \<times> 'm) list \<Rightarrow> byte list" where
  "items_bytes orc v [] = []"
| "items_bytes orc v (k # ks) =
     (case item_bytes orc v k of None \<Rightarrow> [] | Some b \<Rightarrow> b) @ items_bytes orc v ks"

text \<open>Writing the item \<open>k\<close> at the writer \<open>w\<close> raises inside the \<^verbatim>\<open>try\<close> block.\<close>

definition raises_at :: "'m Oracle \<Rightarrow> Writer \<Rightarrow> nat \<times> 'm \<Rightarrow> bool" where
  "raises_at orc w k =
     (case write_uint16 (fst k) w of
        None \<Rightarrow> True
      | Some w1 \<Rightarrow> write_item orc (snd k) w1 = None)"

text \<open>The number of calls of \<open>onClose\<close>, and the seqs of the handler calls, in a trace.\<close>

fun is_Closed :: "('m, 'c) event \<Rightarrow> bool" where
  "is_Closed (Closed k) = True"
| "is_Closed _ = False"

definition closed_count :: "('m, 'c) event list \<Rightarrow> nat" where
  "closed_count ev = length (filter is_Closed ev)"

fun delivered :: "('m, 'c) event list \<Rightarrow> nat list" where
  "delivered [] = []"
| "delivered (Delivered seq item # ev) = seq # delivered ev"
| "delivered (_ # ev) = delivered ev"

text \<open>
  \<open>fired s s' ev\<close>: between the states \<open>s\<close> and \<open>s'\<close> the callback is either still in its
  field and was not called in \<open>ev\<close>, or it was taken out and called there once.
\<close>

definition fired :: "('m, 'c) UdpStream \<Rightarrow> ('m, 'c) UdpStream \<Rightarrow> ('m, 'c) event list \<Rightarrow> bool" where
  "fired s s' ev =
     ((onClose s' = None \<or> onClose s' = onClose s) \<and>
      closed_count ev = (if onClose s \<noteq> None \<and> onClose s' = None then 1 else 0))"

text \<open>
  The life of one stream as the calls made on it: its public methods, the two timer
  callbacks (which run only while their handle is set), and \<^verbatim>\<open>receive\<close> on a frame.
\<close>

datatype 'm op =
    OpSend "'m option"
  | OpClose
  | OpEnd
  | OpReceive "byte list"
  | OpTick
  | OpRetry

fun step ::
  "'m Oracle \<Rightarrow> ('m \<Rightarrow> ('m, 'c) UdpStream \<Rightarrow> 'm call list \<times> exn option) \<Rightarrow> 'm op
     \<Rightarrow> ('m, 'c) UdpStream \<Rightarrow> ('m, 'c) UdpStream \<times> ('m, 'c) event list" where
  "step orc h (OpSend item) s = send item s"
| "step orc h OpClose s = close s"
| "step orc h OpEnd s = end_stream s"
| "step orc h (OpReceive bs) s = (case receive orc h s bs of (s', ev, x) \<Rightarrow> (s', ev))"
| "step orc h OpTick s =
     (if sendHandle s then (case send_tick orc s of (s', ev, x) \<Rightarrow> (s', ev)) else (s, []))"
| "step orc h OpRetry s = (if retryHandle s then send None s else (s, []))"

fun run_ops ::
  "'m Oracle \<Rightarrow> ('m \<Rightarrow> ('m, 'c) UdpStream \<Rightarrow> 'm call list \<times> exn option) \<Rightarrow> 'm op list
     \<Rightarrow> ('m, 'c) UdpStream \<Rightarrow> ('m, 'c) UdpStream \<times> ('m, 'c) event list" where
  "run_ops orc h [] s = (s, [])"
| "run_ops orc h (a # as) s =
     (case step orc h a s of
        (s1, e1) \<Rightarrow> (case run_ops orc h as s1 of (s2, e2) \<Rightarrow> (s2, e1 @ e2)))"

text \<open>
  The ways a call reaches \<^verbatim>\<open>end()\<close>: \<^verbatim>\<open>end()\<close> itself, a frame whose ack is \<open>0xFFFF\<close>, and
  a \<^verbatim>\<open>send\<close> (direct, from the retry timer, or from \<^verbatim>\<open>close()\<close>) that finds no send
  scheduled and the attempts used up.
\<close>

fun tears_down :: "'m op \<Rightarrow> ('m, 'c) UdpStream \<Rightarrow> bool" where
  "tears_down OpEnd s = True"
| "tears_down (OpReceive bs) s =
     (case read_uint16 bs of None \<Rightarrow> False | Some (remoteAck, rest) \<Rightarrow> remoteAck = 65535)"
| "tears_down (OpSend item) s = (\<not> sendHandle s \<and> maxAttempts s \<le> attempts s)"
| "tears_down OpRetry s = (retryHandle s \<and> \<not> sendHandle s \<and> maxAttempts s \<le> attempts s)"
| "tears_down OpClose s = (\<not> closing s \<and> \<not> sendHandle s \<and> 5 \<le> attempts s)"
| "tears_down OpTick s = False"

text \<open>
  \<open>in_order s s' ev\<close>: from a state whose \<open>remoteSeq\<close> fits 16 bits, \<open>remoteSeq\<close> did not go
  down, and the handler calls of \<open>ev\<close> carry strictly increasing sequence numbers, all
  above the old \<open>remoteSeq\<close> and none above the new one.
\<close>

definition in_order :: "('m, 'c) UdpStream \<Rightarrow> ('m, 'c) UdpStream \<Rightarrow> ('m, 'c) event list \<Rightarrow> bool" where
  "in_order s s' ev =
     (remoteSeq s \<le> 65535 \<longrightarrow>
        remoteSeq s' \<le> 65535 \<and> remoteSeq s \<le> remoteSeq s' \<and>
        sorted_wrt (<) (delivered ev) \<and>
        (\<forall>q\<in>set (delivered ev). remoteSeq s < q \<and> q \<le> remoteSeq s'))"

fun is_OpenHandlerCalled :: "('m, 'u) sevent \<Rightarrow> bool" where
  "is_OpenHandlerCalled (OpenHandlerCalled handler ud r) = True"
| "is_OpenHandlerCalled _ = False"

section \<open>Concrete inputs\<close>

text \<open>
  \<open>pair_oracle\<close> is an oracle whose messages are two bytes, a type byte
  and a value byte, written as they are; \<open>fresh\<close> is a stream as the constructor leaves it.
  \<open>no_calls\<close> is an item handler that leaves the stream alone; \<open>quiet\<close> and \<open>ending\<close> are
  registered stream handlers, one that makes no call and one that calls \<^verbatim>\<open>stream.end()\<close>.
\<close>

definition pair_oracle :: "(byte \<times> byte) Oracle" where
  "pair_oracle =
     \<lparr>decode = (\<lambda>v bs. case bs of t # x # _ \<Rightarrow> Some ((t, x), 2) | _ \<Rightarrow> None),
      encode = (\<lambda>v m. Some [fst m, snd m]),
      identify = (\<lambda>m. unat (fst m))\<rparr>"

definition no_calls ::
  "byte \<times> byte \<Rightarrow> (byte \<times> byte, 'c) UdpStream \<Rightarrow> (byte \<times> byte) call list \<times> exn option" where
  "no_calls m st = ([], None)"

definition quiet :: "byte \<times> byte \<Rightarrow> (byte \<times> byte) call list" where
  "quiet m = []"

definition ending :: "byte \<times> byte \<Rightarrow> (byte \<times> byte) call list" where
  "ending m = [CallEnd]"

definition fresh :: "(byte \<times> byte, unit) UdpStream" where
  "fresh = new_stream \<lparr>port = 4000, address = ''10.0.0.2''\<rparr> 0 ()"

text \<open>
  A closing stream with no send scheduled, as \<^verbatim>\<open>close()\<close> followed by the scheduled send
  leaves a fresh stream; and the same stream after four unanswered retries.
\<close>

definition closing_idle :: "(byte \<times> byte, unit) UdpStream" where
  "closing_idle = fst (run_ops pair_oracle no_calls [OpClose, OpTick] fresh)"

definition closing_spent :: "(byte \<times> byte, unit) UdpStream" where
  "closing_spent =
     fst (run_ops pair_oracle no_calls
            [OpClose, OpTick, OpRetry, OpTick, OpRetry, OpTick, OpRetry, OpTick, OpRetry, OpTick]
            fresh)"

text \<open>
  Two sockets for concrete inputs: a server that listens, with a general handler and a
  connect handler for messages of type 5, and a client connected to \<open>10.0.0.2:4000\<close> with
  a stream handler for type 5 (\<open>client_ending\<close>: the same with the handler that ends the
  stream). \<open>peer\<close> is a third party.
\<close>

definition server_socket :: "(byte \<times> byte, string) UdpSocket" where
  "server_socket = onConnect 5 ''hello'' (on 5 ''ping'' (listen (new_socket pair_oracle 0)))"

definition client_socket :: "(byte \<times> byte, string) UdpSocket" where
  "client_socket =
     connect \<lparr>port = 4000, address = ''10.0.0.2''\<rparr> 0 (5, 1)
       (onStream 5 (''data'', quiet) (new_socket pair_oracle 0))"

definition client_ending :: "(byte \<times> byte, string) UdpSocket" where
  "client_ending =
     connect \<lparr>port = 4000, address = ''10.0.0.2''\<rparr> 0 (5, 1)
       (onStream 5 (''data'', ending) (new_socket pair_oracle 0))"

definition peer :: EndPoint where
  "peer = \<lparr>port = 5000, address = ''10.0.0.9''\<rparr>"

text \<open>
  The server after the same connect request of \<open>peer\<close> has arrived twice while no connect
  handler has resolved yet: two provisional streams, stored under 0 and 1, none registered.
\<close>

definition pending_two :: "(byte \<times> byte, string) UdpSocket" where
  "pending_two =
     fst (handleMessage
            (fst (handleMessage server_socket [1, 0, 0, 0, 1, 5, 1, 0, 0] peer))
            [1, 0, 0, 0, 1, 5, 1, 0, 0] peer)"

definition provisional :: "nat \<Rightarrow> (byte \<times> byte, on_close) UdpStream" where
  "provisional r =
     (new_stream peer 0 (ServerClose ''10.0.0.9:5000'' r))\<lparr>remoteSeq := 1, sendHandle := True\<rparr>"

text \<open>The server once the connect handler of the first provisional stream has accepted.\<close>

definition accepted_first :: "(byte \<times> byte, string) UdpSocket" where
  "accepted_first = pending_two\<lparr>streams := Some [(''10.0.0.9:5000'', (0, ''alice''))]\<rparr>"

text \<open>
  A stream on which \<^verbatim>\<open>send(item)\<close> was called 249 times before the scheduled send ran: 249
  pending items of four bytes each, which with the tag byte and the ack fill 999 of the
  1000 bytes of the buffer of \<^verbatim>\<open>sendStream\<close>.
\<close>

definition backlog :: "(byte \<times> byte, unit) UdpStream" where
  "backlog = fst (run_ops pair_oracle no_calls (replicate 249 (OpSend (Some (5, 7)))) fresh)"

section \<open>Properties\<close>

subsection \<open>Unfolding for concrete inputs\<close>

lemmas fixture_defs =
  pair_oracle_def no_calls_def quiet_def ending_def fresh_def new_stream_def
  MIN_RETRY_INTERVAL_def
  MAX_RETRY_INTERVAL_def STREAM_def GENERAL_def

lemmas eval_defs =
  send_def close_def end_stream_def receive_def read_uint16_def receive_loop.simps
  serialize_def sendStream_def send_tick_def write_uint8_def write_uint16_def write_item_def
  mark_def revert_def be16_def item_bytes_def raises_at_def Let_def

lemma peer_id: "getEndPointId peer = ''10.0.0.9:5000''"
  by (simp add: getEndPointId_def peer_def)

lemmas socket_defs =
  server_socket_def client_socket_def client_ending_def new_socket_def listen_def on_def
  onConnect_def onStream_def connect_def handleMessage_def feed_def stream_gone_def
  client_calls_def client_deliver_def stream_calls_def stream_deliver_def
  connect_calls_def connect_deliver_def stream_end_def connect_resolved_def
  connect_resolved_open_def handleClose_def socket_end_def

subsection \<open>The frame written by serialize\<close>

lemma length_be16 [simp]: "length (be16 v) = 2"
  by (simp add: be16_def)

lemma write_uint16_Some:
  "write_uint16 v w = Some w' \<longleftrightarrow>
     v \<le> 65535 \<and> length (out w) + 2 \<le> cap w \<and> w' = w\<lparr>out := out w @ be16 v\<rparr>"
  by (auto simp: write_uint16_def)

lemma serialize_items_step:
  "serialize_items orc (k # ks) w r =
     (case item_bytes orc (wversion w) k of
        None \<Rightarrow> (w, r)
      | Some b \<Rightarrow>
          if cap w - length (out w) < length b then (w, r)
          else serialize_items orc ks (w\<lparr>out := out w @ b\<rparr>) (r - 1))"
  by (auto simp: write_uint16_def write_item_def item_bytes_def mark_def revert_def Let_def
           split: option.splits)

lemma serialize_items_written:
  "serialize_items orc ks w r =
     (w\<lparr>out := out w @ items_bytes orc (wversion w) (written_items orc (wversion w) (cap w - length (out w)) ks)\<rparr>,
      r - length (written_items orc (wversion w) (cap w - length (out w)) ks))"
proof (induction ks arbitrary: w r)
  case Nil
  show ?case by simp
next
  case (Cons k ks)
  show ?case
    by (simp add: serialize_items_step Cons.IH split: option.splits del: serialize_items.simps)
qed

lemma written_items_prefix:
  "\<exists>n\<le>length ks. written_items orc v room ks = take n ks"
proof (induction ks arbitrary: room)
  case Nil
  show ?case by simp
next
  case (Cons k ks)
  show ?case
  proof (cases "written_items orc v room (k # ks) = []")
    case True
    then show ?thesis by (intro exI [of _ 0]) simp
  next
    case False
    then obtain b where b: "item_bytes orc v k = Some b" "\<not> room < length b"
      by (auto split: option.splits if_splits)
    from Cons.IH [of "room - length b"] obtain n where
      "n \<le> length ks" "written_items orc v (room - length b) ks = take n ks" by blast
    with b show ?thesis by (intro exI [of _ "Suc n"]) simp
  qed
qed

lemma serialize_returns:
  "(\<exists>w'. serialize orc s w = Inr w') \<longleftrightarrow>
     remoteSeq s \<le> 65535 \<and>
     length (out w) + 2
       + length (items_bytes orc (wversion w)
           (written_items orc (wversion w) (cap w - length (out w) - 2) (items s)))
       + 2 \<le> cap w"
  by (auto simp: serialize_def write_uint16_def serialize_items_written split: option.splits)

lemma serialize_raises_RangeError:
  "serialize orc s w = Inl e \<Longrightarrow> e = RangeError"
  by (auto simp: serialize_def split: option.splits prod.splits)

text \<open>
  What \<^verbatim>\<open>serialize\<close> has appended to the output when it returns: \<open>remoteSeq\<close> as a
  16-bit ack; then the pending items it wrote, in queue order, each as its 16-bit seq
  followed by its oracle-encoded payload; then a 16-bit terminator, which is \<open>0xFFFF\<close>
  exactly when \<open>closing\<close> is set and every pending item was written into this frame, and
  \<open>0\<close> otherwise. The items written are \<open>written_items\<close>: the items from the head of the
  queue up to the first one that raises or does not fit, a prefix of the queue.
  \<open>serialize_returns\<close> says when it returns.
\<close>

lemma serialize_frame_body:
  assumes "serialize orc s w = Inr w'"
  shows "out w' =
           out w @ be16 (remoteSeq s)
             @ items_bytes orc (wversion w)
                 (written_items orc (wversion w) (cap w - length (out w) - 2) (items s))
             @ be16 (if closing s \<and>
                        written_items orc (wversion w) (cap w - length (out w) - 2) (items s) = items s
                     then 65535 else 0)
       \<and> (\<exists>n\<le>length (items s).
             written_items orc (wversion w) (cap w - length (out w) - 2) (items s) = take n (items s))"
proof -
  let ?ws = "written_items orc (wversion w) (cap w - length (out w) - 2) (items s)"
  from assms obtain w0 where w0: "write_uint16 (remoteSeq s) w = Some w0"
    by (auto simp: serialize_def split: option.splits)
  then have w0_eq: "w0 = w\<lparr>out := out w @ be16 (remoteSeq s)\<rparr>"
    by (simp add: write_uint16_Some)
  have loop: "serialize_items orc (items s) w0 (length (items s)) =
                (w0\<lparr>out := out w0 @ items_bytes orc (wversion w) ?ws\<rparr>,
                 length (items s) - length ?ws)"
    by (simp add: serialize_items_written w0_eq)
  note pre = written_items_prefix [of "items s" orc "wversion w" "cap w - length (out w) - 2"]
  then have rem: "length (items s) - length ?ws = 0 \<longleftrightarrow> ?ws = items s"
    by auto
  from assms w0 loop rem have "out w' =
      out w @ be16 (remoteSeq s) @ items_bytes orc (wversion w) ?ws
        @ be16 (if closing s \<and> ?ws = items s then 65535 else 0)"
    by (auto simp: serialize_def w0_eq write_uint16_Some split: option.splits if_splits)
  with pre show ?thesis by blast
qed

lemma serialize_frame_body_example:
  "serialize pair_oracle
     (fresh\<lparr>items := [(1, (5, 7)), (2, (5, 8))], localSeq := 2, closing := True\<rparr>)
     \<lparr>wversion = 0, out = [1], cap = 10\<rparr>
   = Inr \<lparr>wversion = 0, out = [1, 0, 0, 0, 1, 5, 7, 0, 0], cap = 10\<rparr>
   \<and> [1, 0, 0, 0, 1, 5, 7, 0, 0] =
       [1] @ be16 0 @ items_bytes pair_oracle 0 [(1, (5, 7))] @ be16 0"
proof -
  let ?s = "fresh\<lparr>items := [(1, (5, 7)), (2, (5, 8))], localSeq := 2, closing := True\<rparr>"
  let ?w = "\<lparr>wversion = 0, out = [1], cap = 10\<rparr>"
  let ?w' = "\<lparr>wversion = 0, out = [1, 0, 0, 0, 1, 5, 7, 0, 0], cap = 10\<rparr>"
  have h: "serialize pair_oracle ?s ?w = Inr ?w'"
    by (simp add: fixture_defs eval_defs)
  have ws: "written_items pair_oracle 0 7 [(1, (5, 7)), (2, (5, 8))] = [(1, (5, 7))]"
    by (simp add: fixture_defs eval_defs)
  from serialize_frame_body [OF h] h ws show ?thesis
    by (simp add: fixture_defs)
qed

lemma send_item_open:
  assumes "\<not> closing s" and "sendHandle s \<or> attempts s < maxAttempts s"
  shows "send (Some m) s =
           (s\<lparr>localSeq := localSeq s + 1, items := items s @ [(localSeq s + 1, m)],
              sendHandle := True\<rparr>, [])"
  using assms by (auto simp: send_def Let_def)

lemma run_sends:
  assumes "\<not> closing s" and "sendHandle s \<or> attempts s < maxAttempts s"
  shows "items (fst (run_ops orc h (replicate n (OpSend (Some m))) s)) =
           items s @ map (\<lambda>i. (i, m)) [Suc (localSeq s) ..< Suc (localSeq s) + n]
       \<and> remoteSeq (fst (run_ops orc h (replicate n (OpSend (Some m))) s)) = remoteSeq s
       \<and> version (fst (run_ops orc h (replicate n (OpSend (Some m))) s)) = version s
       \<and> closing (fst (run_ops orc h (replicate n (OpSend (Some m))) s)) = closing s
       \<and> sendHandle (fst (run_ops orc h (replicate n (OpSend (Some m))) s)) = (sendHandle s \<or> 0 < n)"
  using assms
proof (induction n arbitrary: s)
  case 0
  show ?case by simp
next
  case (Suc n)
  let ?s1 = "s\<lparr>localSeq := localSeq s + 1, items := items s @ [(localSeq s + 1, m)],
               sendHandle := True\<rparr>"
  have st: "step orc h (OpSend (Some m)) s = (?s1, [])"
    using send_item_open [OF Suc.prems] by simp
  have "\<not> closing ?s1" "sendHandle ?s1 \<or> attempts ?s1 < maxAttempts ?s1"
    using Suc.prems by simp_all
  from Suc.IH [OF this] st show ?case
    by (simp add: upt_conv_Cons split: prod.splits)
qed

lemma pair_items_fit:
  assumes "\<forall>k\<in>set ks. fst k \<le> 65535" and "4 * length ks \<le> room"
  shows "written_items pair_oracle v room ks = ks
       \<and> length (items_bytes pair_oracle v ks) = 4 * length ks"
  using assms
proof (induction ks arbitrary: room)
  case Nil
  show ?case by simp
next
  case (Cons k ks)
  have b: "item_bytes pair_oracle v k = Some (be16 (fst k) @ [fst (snd k), snd (snd k)])"
    using Cons.prems(1) by (simp add: item_bytes_def pair_oracle_def)
  from Cons.prems have "\<forall>k\<in>set ks. fst k \<le> 65535" "4 * length ks \<le> room - 4"
    by simp_all
  from Cons.IH [OF this] b Cons.prems(2) show ?case by simp
qed

lemma backlog_fields:
  "items backlog = map (\<lambda>i. (i, (5, 7))) [1 ..< 250]"
  "remoteSeq backlog = 0" "version backlog = 0" "\<not> closing backlog" "sendHandle backlog"
  using run_sends [of fresh pair_oracle no_calls 249 "(5, 7)"]
  by (simp_all add: backlog_def fresh_def new_stream_def)

lemma backlog_serialize:
  fixes s :: "(byte \<times> byte, unit) UdpStream"
  assumes "items s = map (\<lambda>i. (i, (5, 7))) [1 ..< 250]" and "remoteSeq s = 0"
  shows "serialize pair_oracle s \<lparr>wversion = 0, out = [1], cap = 1000\<rparr> = Inl RangeError"
proof (cases "serialize pair_oracle s \<lparr>wversion = 0, out = [1], cap = 1000\<rparr>")
  case (Inl e)
  then show ?thesis using serialize_raises_RangeError [OF Inl] by simp
next
  case (Inr w')
  let ?ks = "map (\<lambda>i. (i, (5, 7))) [1 ..< 250] :: (nat \<times> byte \<times> byte) list"
  have fit: "written_items pair_oracle 0 997 ?ks = ?ks
           \<and> length (items_bytes pair_oracle 0 ?ks) = 4 * length ?ks"
    by (rule pair_items_fit) auto
  from Inr have "\<exists>w'. serialize pair_oracle s \<lparr>wversion = 0, out = [1], cap = 1000\<rparr> = Inr w'"
    by blast
  with assms fit show ?thesis by (simp add: serialize_returns)
qed

text \<open>
  Claim C2 at a failing input. After 249 calls of \<^verbatim>\<open>send(item)\<close> the scheduled send runs.
  All 249 items fit the 1000-byte buffer of \<^verbatim>\<open>sendStream\<close> and leave one byte free. The
  terminator is written outside the \<^verbatim>\<open>try\<close> block and does not fit: \<^verbatim>\<open>serialize\<close> raises,
  no terminator is written and \<^verbatim>\<open>sendStream\<close> has no frame to send.
\<close>

theorem terminator_does_not_fit:
  "length (items backlog) = 249
   \<and> serialize pair_oracle backlog \<lparr>wversion = 0, out = [1], cap = 1000\<rparr> = Inl RangeError
   \<and> sendStream pair_oracle backlog = Inl RangeError"
proof -
  have len: "length (items backlog) = 249"
    by (simp add: backlog_fields)
  have s1: "serialize pair_oracle backlog \<lparr>wversion = 0, out = [1], cap = 1000\<rparr> = Inl RangeError"
    by (rule backlog_serialize) (simp_all add: backlog_fields)
  then have s2: "sendStream pair_oracle backlog = Inl RangeError"
    by (simp add: sendStream_def write_uint8_def STREAM_def backlog_fields)
  from len s1 s2 show ?thesis by blast
qed

text \<open>
  The scheduled send on that stream: the callback is left when \<^verbatim>\<open>sendStream\<close> raises,
  nothing is transmitted, and the send handle stays set, so that no later \<^verbatim>\<open>send\<close>
  schedules anything.
\<close>

lemma scheduled_send_wedged:
  "send_tick pair_oracle backlog = (backlog\<lparr>attempts := attempts backlog + 1\<rparr>, [], Some RangeError)
   \<and> sendHandle (fst (send_tick pair_oracle backlog))
   \<and> send None (fst (send_tick pair_oracle backlog)) = (fst (send_tick pair_oracle backlog), [])"
proof -
  have "serialize pair_oracle (backlog\<lparr>attempts := attempts backlog + 1\<rparr>)
          \<lparr>wversion = 0, out = [1], cap = 1000\<rparr> = Inl RangeError"
    by (rule backlog_serialize) (simp_all add: backlog_fields)
  then have "sendStream pair_oracle (backlog\<lparr>attempts := attempts backlog + 1\<rparr>) = Inl RangeError"
    by (simp add: sendStream_def write_uint8_def STREAM_def backlog_fields)
  then have s3: "send_tick pair_oracle backlog =
      (backlog\<lparr>attempts := attempts backlog + 1\<rparr>, [], Some RangeError)"
    by (simp add: send_tick_def)
  then show ?thesis
    by (simp add: send_def backlog_fields)
qed

lemma raises_at_item_bytes:
  "raises_at orc w k \<longleftrightarrow>
     (case item_bytes orc (wversion w) k of
        None \<Rightarrow> True
      | Some b \<Rightarrow> cap w - length (out w) < length b)"
  by (auto simp: raises_at_def write_uint16_def write_item_def item_bytes_def
           split: option.splits)

lemma written_items_append:
  "written_items orc v room pre = pre \<Longrightarrow>
   written_items orc v room (pre @ ks) =
     pre @ written_items orc v (room - length (items_bytes orc v pre)) ks"
proof (induction pre arbitrary: room)
  case Nil
  show ?case by simp
next
  case (Cons k pre)
  from Cons.prems obtain b where b: "item_bytes orc v k = Some b" "\<not> room < length b"
    by (auto split: option.splits if_splits)
  with Cons.prems have "written_items orc v (room - length b) pre = pre" by simp
  from Cons.IH [OF this] b show ?case by simp
qed

lemma send_tick_items: "items (fst (send_tick orc s)) = items s"
  by (simp add: send_tick_def Let_def split: sum.splits)

text \<open>
  Claim C3. If the items \<open>pre\<close> at the head of the queue are written and writing the next
  item \<open>k\<close> raises (in the write of its seq or in the oracle), the loop of \<^verbatim>\<open>serialize\<close>
  leaves the output as it was just before \<open>k\<close>, that is right after the bytes of \<open>pre\<close>,
  whatever items \<open>post\<close> follow \<open>k\<close>: none of them is appended, and \<open>k\<close> and \<open>post\<close> are
  counted as remaining. The scheduled send, which is what calls \<^verbatim>\<open>serialize\<close>, leaves the
  pending queue as it was.
\<close>

theorem serialize_item_raises:
  assumes pre: "written_items orc (wversion w) (cap w - length (out w)) pre = pre"
    and k: "raises_at orc (w\<lparr>out := out w @ items_bytes orc (wversion w) pre\<rparr>) k"
  shows "serialize_items orc (pre @ k # post) w r =
           (w\<lparr>out := out w @ items_bytes orc (wversion w) pre\<rparr>, r - length pre)
         \<and> items (fst (send_tick orc s)) = items s"
proof -
  have "written_items orc (wversion w) (cap w - length (out w) - length (items_bytes orc (wversion w) pre)) (k # post) = []"
    using k by (auto simp: raises_at_item_bytes split: option.splits)
  then have "written_items orc (wversion w) (cap w - length (out w)) (pre @ k # post) = pre"
    using written_items_append [OF pre, of "k # post"] by simp
  then show ?thesis
    by (simp add: serialize_items_written send_tick_items)
qed

theorem serialize_item_raises_witness:
  "serialize_items pair_oracle ([(1, (5, 7))] @ (2, (5, 8)) # [(3, (5, 9))])
     \<lparr>wversion = 0, out = [1, 0, 0], cap = 10\<rparr> 3
   = (\<lparr>wversion = 0, out = [1, 0, 0, 0, 1, 5, 7], cap = 10\<rparr>, 2)
   \<and> items (fst (send_tick pair_oracle fresh)) = items fresh"
proof -
  let ?w = "\<lparr>wversion = 0, out = [1, 0, 0], cap = 10\<rparr>"
  have pre: "written_items pair_oracle (wversion ?w) (cap ?w - length (out ?w)) [(1, (5, 7))]
               = [(1, (5, 7))]"
    by (simp add: fixture_defs eval_defs)
  have k: "raises_at pair_oracle
             (?w\<lparr>out := out ?w @ items_bytes pair_oracle (wversion ?w) [(1, (5, 7))]\<rparr>)
             (2, (5, 8))"
    by (simp add: fixture_defs eval_defs)
  from serialize_item_raises [OF pre k, of "[(3, (5, 9))]" 3 fresh] show ?thesis
    by (simp add: fixture_defs eval_defs)
qed

subsection \<open>The loop of receive\<close>

lemma receive_loop_rule [case_names underrun stop sentinel undecodable deliver skip raised]:
  assumes underrun: "\<And>s bs. read_uint16 bs = None \<Longrightarrow> Q s bs (s, [], Some RangeError)"
    and stop: "\<And>s bs rest. read_uint16 bs = Some (0, rest) \<Longrightarrow> Q s bs (s, [], None)"
    and sentinel: "\<And>s bs rest s1 e1.
          read_uint16 bs = Some (65535, rest) \<Longrightarrow>
          close (s\<lparr>remoteSeq := 65535\<rparr>) = (s1, e1) \<Longrightarrow>
          Q s bs (s1\<lparr>maxAttempts := 1\<rparr>, e1, None)"
    and undecodable: "\<And>s bs seq rest s1 e1.
          read_uint16 bs = Some (seq, rest) \<Longrightarrow> seq \<noteq> 0 \<Longrightarrow> seq \<noteq> 65535 \<Longrightarrow>
          remoteSeq s < seq \<Longrightarrow>
          (if \<not> sendHandle s then send None s else (s, [])) = (s1, e1) \<Longrightarrow>
          decode orc (version s) rest = None \<Longrightarrow>
          Q s bs (s1\<lparr>remoteSeq := seq\<rparr>, e1, Some OracleError)"
    and deliver: "\<And>s bs seq rest s1 e1 item n s2 e2 s3 e3 x calls.
          read_uint16 bs = Some (seq, rest) \<Longrightarrow> seq \<noteq> 0 \<Longrightarrow> seq \<noteq> 65535 \<Longrightarrow>
          remoteSeq s < seq \<Longrightarrow>
          (if \<not> sendHandle s then send None s else (s, [])) = (s1, e1) \<Longrightarrow>
          decode orc (version s) rest = Some (item, n) \<Longrightarrow>
          run_calls calls (s1\<lparr>remoteSeq := seq\<rparr>) = (s2, e2) \<Longrightarrow>
          receive_loop orc h s2 (drop n rest) = (s3, e3, x) \<Longrightarrow>
          Q s2 (drop n rest) (s3, e3, x) \<Longrightarrow>
          h item (s1\<lparr>remoteSeq := seq\<rparr>) = (calls, None) \<Longrightarrow>
          Q s bs (s3, e1 @ [Delivered seq item] @ e2 @ e3, x)"
    and skip: "\<And>s bs seq rest.
          read_uint16 bs = Some (seq, rest) \<Longrightarrow> seq \<noteq> 0 \<Longrightarrow> seq \<noteq> 65535 \<Longrightarrow>
          \<not> remoteSeq s < seq \<Longrightarrow>
          Q s rest (receive_loop orc h s rest) \<Longrightarrow>
          Q s bs (receive_loop orc h s rest)"
    and raised: "\<And>s bs seq rest s1 e1 item n s2 e2 calls e.
          read_uint16 bs = Some (seq, rest) \<Longrightarrow> seq \<noteq> 0 \<Longrightarrow> seq \<noteq> 65535 \<Longrightarrow>
          remoteSeq s < seq \<Longrightarrow>
          (if \<not> sendHandle s then send None s else (s, [])) = (s1, e1) \<Longrightarrow>
          decode orc (version s) rest = Some (item, n) \<Longrightarrow>
          run_calls calls (s1\<lparr>remoteSeq := seq\<rparr>) = (s2, e2) \<Longrightarrow>
          h item (s1\<lparr>remoteSeq := seq\<rparr>) = (calls, Some e) \<Longrightarrow>
          Q s bs (s2, e1 @ [Delivered seq item] @ e2, Some e)"
  shows "Q s bs (receive_loop orc h s bs)"
  using assms
proof (induction orc h s bs rule: receive_loop.induct)
  case (1 orc h s bs)
  note underrun = "1.prems"(1) and stop = "1.prems"(2) and sentinel = "1.prems"(3)
    and undecodable = "1.prems"(4) and deliver = "1.prems"(5) and skip = "1.prems"(6)
    and raised = "1.prems"(7)
  show ?case
  proof (cases "read_uint16 bs")
    case None
    then show ?thesis
      using underrun by (simp add: receive_loop.simps [of orc h s bs])
  next
    case (Some a)
    obtain seq rest where a: "a = (seq, rest)" by (cases a)
    note rd = Some [unfolded a]
    consider "seq = 0" | "seq = 65535" | "seq \<noteq> 0" "seq \<noteq> 65535" "remoteSeq s < seq"
      | "seq \<noteq> 0" "seq \<noteq> 65535" "\<not> remoteSeq s < seq" by blast
    then show ?thesis
    proof cases
      case 1
      with rd stop [of bs rest s] have "Q s bs (s, [], None)" by simp
      with 1 rd show ?thesis
        by (simp add: receive_loop.simps [of orc h s bs])
    next
      case 2
      obtain s1 e1 where c: "close (s\<lparr>remoteSeq := 65535\<rparr>) = (s1, e1)"
        by (cases "close (s\<lparr>remoteSeq := 65535\<rparr>)")
      from 2 rd have "read_uint16 bs = Some (65535, rest)" by simp
      from sentinel [OF this c] 2 rd c show ?thesis
        by (simp add: receive_loop.simps [of orc h s bs])
    next
      case 3
      obtain s1 e1 where s1: "(if \<not> sendHandle s then send None s else (s, [])) = (s1, e1)"
        by (cases "if \<not> sendHandle s then send None s else (s, [])")
      show ?thesis
      proof (cases "decode orc (version s) rest")
        case None
        from undecodable [OF rd 3 s1 None] rd 3 s1 None show ?thesis
          by (simp add: receive_loop.simps [of orc h s bs])
      next
        case (Some d)
        obtain item n where d: "d = (item, n)" by (cases d)
        note dec = Some [unfolded d]
        obtain calls hx where hc: "h item (s1\<lparr>remoteSeq := seq\<rparr>) = (calls, hx)"
          by (cases "h item (s1\<lparr>remoteSeq := seq\<rparr>)")
        obtain s2 e2 where s2: "run_calls calls (s1\<lparr>remoteSeq := seq\<rparr>) = (s2, e2)"
          by (cases "run_calls calls (s1\<lparr>remoteSeq := seq\<rparr>)")
        show ?thesis
        proof (cases hx)
          case (Some e)
          from raised [OF rd 3 s1 dec s2 hc [unfolded Some]] rd 3 s1 dec s2 hc Some
          show ?thesis
            by (simp add: receive_loop.simps [of orc h s bs])
        next
          case None
          obtain s3 e3 x where s3: "receive_loop orc h s2 (drop n rest) = (s3, e3, x)"
            by (cases "receive_loop orc h s2 (drop n rest)")
          have "Q s2 (drop n rest) (receive_loop orc h s2 (drop n rest))"
            using "1.IH"(1) [OF \<open>read_uint16 bs = Some a\<close> a [symmetric] 3(1) 3(2) 3(3)
                s1 [symmetric] \<open>decode orc (version s) rest = Some d\<close> d [symmetric]
                hc [symmetric] s2 [symmetric] None "1.prems"] .
          with s3 have "Q s2 (drop n rest) (s3, e3, x)" by simp
          from deliver [OF rd 3 s1 dec s2 s3 this hc [unfolded None]] rd 3 s1 dec s2 s3 hc None
          show ?thesis
            by (simp add: receive_loop.simps [of orc h s bs])
        qed
      qed
    next
      case 4
      have "Q s rest (receive_loop orc h s rest)"
        using "1.IH"(2) [OF \<open>read_uint16 bs = Some a\<close> a [symmetric] 4 "1.prems"] .
      from skip [OF rd 4 this] rd 4 show ?thesis
        by (simp add: receive_loop.simps [of orc h s bs])
    qed
  qed
qed

lemma shift_acked_dropWhile:
  "shift_acked ks a = dropWhile (\<lambda>k. fst k \<le> a) ks"
  by (induction ks) (auto simp: not_le)

lemma end_stream_items: "items (fst (end_stream s)) = items s"
  by (simp add: end_stream_def)

lemma send_items: "\<exists>pushed. items (fst (send item s)) = items s @ pushed"
  by (auto simp: send_def end_stream_def Let_def split: option.splits)

lemma close_items: "items (fst (close s)) = items s"
  by (auto simp: close_def send_def end_stream_def Let_def)

lemma run_call_items: "\<exists>pushed. items (fst (run_call c s)) = items s @ pushed"
  by (cases c) (auto simp: send_items close_items end_stream_items)

lemma run_calls_items: "\<exists>pushed. items (fst (run_calls cs s)) = items s @ pushed"
proof (induction cs arbitrary: s)
  case Nil
  show ?case by simp
next
  case (Cons c cs)
  obtain s1 e1 where c: "run_call c s = (s1, e1)" by (cases "run_call c s")
  obtain p1 where p1: "items s1 = items s @ p1"
    using run_call_items [of c s] c by auto
  obtain p2 where "items (fst (run_calls cs s1)) = items s1 @ p2"
    using Cons.IH [of s1] by blast
  with c p1 show ?case by (auto split: prod.splits)
qed

lemma receive_loop_items:
  "\<exists>pushed. items (fst (receive_loop orc h s bs)) = items s @ pushed"
proof (rule receive_loop_rule
    [where Q = "\<lambda>s bs r. \<exists>pushed. items (fst r) = items s @ pushed" and orc = orc and h = h],
    goal_cases)
  case (1 s bs)
  show ?case by simp
next
  case (2 s bs rest)
  show ?case by simp
next
  case (3 s bs rest s1 e1)
  with close_items [of "s\<lparr>remoteSeq := 65535\<rparr>"] show ?case by simp
next
  case (4 s bs seq rest s1 e1)
  with send_items [of None s] show ?case by (auto split: if_splits)
next
  case (5 s bs seq rest s1 e1 item n s2 e2 s3 e3 x calls)
  from 5(5) send_items [of None s] obtain p1 where "items s1 = items s @ p1"
    by (auto split: if_splits)
  moreover from 5(7) run_calls_items [of calls "s1\<lparr>remoteSeq := seq\<rparr>"]
  obtain p2 where "items s2 = items s1 @ p2" by auto
  moreover from 5(9) obtain p3 where "items s3 = items s2 @ p3" by auto
  ultimately show ?case by simp
next
  case (6 s bs seq rest)
  then show ?case by simp
next
  case (7 s bs seq rest s1 e1 item n s2 e2 calls e)
  from 7(5) send_items [of None s] obtain p1 where "items s1 = items s @ p1"
    by (auto split: if_splits)
  moreover from 7(7) run_calls_items [of calls "s1\<lparr>remoteSeq := seq\<rparr>"]
  obtain p2 where "items s2 = items s1 @ p2" by auto
  ultimately show ?case by simp
qed

lemma receive_loop_no_calls_items:
  "(\<And>m st. fst (h m st) = []) \<Longrightarrow> items (fst (receive_loop orc h s bs)) = items s"
proof (rule receive_loop_rule
    [where Q = "\<lambda>s bs r. items (fst r) = items s" and orc = orc and h = h], goal_cases)
  case (1 s bs)
  show ?case by simp
next
  case (2 s bs rest)
  show ?case by simp
next
  case (3 s bs rest s1 e1)
  with close_items [of "s\<lparr>remoteSeq := 65535\<rparr>"] show ?case by simp
next
  case (4 s bs seq rest s1 e1)
  then show ?case by (auto simp: send_def end_stream_def Let_def split: if_splits)
next
  case (5 s bs seq rest s1 e1 item n s2 e2 s3 e3 x calls)
  from 5(6) have "items s1 = items s"
    by (auto simp: send_def end_stream_def Let_def split: if_splits)
  moreover from 5(1) [of item "s1\<lparr>remoteSeq := seq\<rparr>"] 5(11) have "calls = []" by simp
  ultimately show ?case using 5(8) 5(10) by auto
next
  case (6 s bs seq rest)
  then show ?case by simp
next
  case (7 s bs seq rest s1 e1 item n s2 e2 calls e)
  from 7(6) have "items s1 = items s"
    by (auto simp: send_def end_stream_def Let_def split: if_splits)
  moreover from 7(1) [of item "s1\<lparr>remoteSeq := seq\<rparr>"] 7(9) have "calls = []" by simp
  ultimately show ?case using 7(8) by auto
qed

text \<open>
  Claim C4. \<^verbatim>\<open>receive\<close> first reads a 16-bit ack. Of the items that were pending, exactly
  the ones at the head of the queue whose seq is at most the ack are removed and all others
  stay (behind them come only items the handler enqueued during this call, none if the
  handler makes no calls). If the ack is \<open>0xFFFF\<close>, the stream is ended at once: the result
  is that of \<^verbatim>\<open>end()\<close> on the stream with the acknowledged items removed and \<open>attempts\<close>
  reset, with no item of the frame handed to the handler.
\<close>

theorem receive_ack:
  assumes "read_uint16 bs = Some (remoteAck, rest)"
  shows "(\<exists>pushed. items (fst (receive orc h s bs)) =
            dropWhile (\<lambda>k. fst k \<le> remoteAck) (items s) @ pushed)
       \<and> ((\<forall>m st. fst (h m st) = []) \<longrightarrow>
            items (fst (receive orc h s bs)) = dropWhile (\<lambda>k. fst k \<le> remoteAck) (items s))
       \<and> (remoteAck = 65535 \<longrightarrow>
            receive orc h s bs =
              (s\<lparr>items := dropWhile (\<lambda>k. fst k \<le> remoteAck) (items s), attempts := 0,
                 closing := True, retryHandle := False, sendHandle := False, onClose := None\<rparr>,
               (case onClose s of None \<Rightarrow> [] | Some k \<Rightarrow> [Closed k]), None))"
proof (intro conjI impI)
  let ?s1 = "s\<lparr>items := shift_acked (items s) remoteAck, attempts := 0\<rparr>"
  let ?s2 = "?s1\<lparr>retryInterval := MIN_RETRY_INTERVAL, retryHandle := False\<rparr>"
  show "\<exists>pushed. items (fst (receive orc h s bs)) =
          dropWhile (\<lambda>k. fst k \<le> remoteAck) (items s) @ pushed"
  proof (cases "remoteAck = 65535")
    case True
    with assms show ?thesis
      by (simp add: receive_def end_stream_def shift_acked_dropWhile)
  next
    case False
    with assms receive_loop_items [of orc h ?s2 rest] show ?thesis
      by (simp add: receive_def shift_acked_dropWhile)
  qed
  show "items (fst (receive orc h s bs)) = dropWhile (\<lambda>k. fst k \<le> remoteAck) (items s)"
    if "\<forall>m st. fst (h m st) = []"
  proof (cases "remoteAck = 65535")
    case True
    with assms show ?thesis
      by (simp add: receive_def end_stream_def shift_acked_dropWhile)
  next
    case False
    from that have "items (fst (receive_loop orc h ?s2 rest)) = items ?s2"
      by (intro receive_loop_no_calls_items) simp
    with False assms show ?thesis
      by (simp add: receive_def shift_acked_dropWhile)
  qed
  show "receive orc h s bs =
          (s\<lparr>items := dropWhile (\<lambda>k. fst k \<le> remoteAck) (items s), attempts := 0,
             closing := True, retryHandle := False, sendHandle := False, onClose := None\<rparr>,
           (case onClose s of None \<Rightarrow> [] | Some k \<Rightarrow> [Closed k]), None)"
    if "remoteAck = 65535"
    using that assms by (simp add: receive_def end_stream_def shift_acked_dropWhile)
qed

theorem receive_ack_witness:
  "items (fst (receive pair_oracle no_calls
                 (fresh\<lparr>items := [(1, (5, 7)), (2, (5, 8)), (3, (5, 9))], localSeq := 3\<rparr>)
                 [0, 2, 0, 0])) = [(3, (5, 9))]
   \<and> receive pair_oracle no_calls
        (fresh\<lparr>items := [(1, (5, 7)), (2, (5, 8)), (3, (5, 9))], localSeq := 3\<rparr>)
        [255, 255, 0, 1, 5, 7, 0, 0]
      = (fresh\<lparr>items := [], localSeq := 3, closing := True, onClose := None\<rparr>,
         [Closed ()], None)"
proof -
  let ?s = "fresh\<lparr>items := [(1, (5, 7)), (2, (5, 8)), (3, (5, 9))], localSeq := 3\<rparr>"
  have a: "read_uint16 [0, 2, 0, 0] = Some (2, [0, 0])"
    by (simp add: read_uint16_def)
  have b: "read_uint16 [255, 255, 0, 1, 5, 7, 0, 0] = Some (65535, [0, 1, 5, 7, 0, 0])"
    by (simp add: read_uint16_def)
  have n: "\<forall>m st. fst (no_calls m st) = []"
    by (simp add: no_calls_def)
  from receive_ack [OF a, of pair_oracle no_calls ?s] n
  have "items (fst (receive pair_oracle no_calls ?s [0, 2, 0, 0])) = [(3, (5, 9))]"
    by (simp add: fixture_defs)
  moreover from receive_ack [OF b, of pair_oracle no_calls ?s]
  have "receive pair_oracle no_calls ?s [255, 255, 0, 1, 5, 7, 0, 0]
      = (fresh\<lparr>items := [], localSeq := 3, closing := True, onClose := None\<rparr>,
         [Closed ()], None)"
    by (simp add: fixture_defs)
  ultimately show ?thesis by simp
qed

text \<open>
  Claim C5. When the loop of \<^verbatim>\<open>receive\<close> reads the seq \<open>0xFFFF\<close>, it leaves \<open>remoteSeq\<close> at
  \<open>0xFFFF\<close>, the stream closing and \<open>maxAttempts\<close> at 1, returns without raising, hands
  no item to the handler, and reads nothing after the sentinel: the result is the same as
  on a frame that ends with the sentinel.
\<close>

theorem receive_close_sentinel:
  assumes "read_uint16 bs = Some (65535, rest)"
  shows "remoteSeq (fst (receive_loop orc h s bs)) = 65535
       \<and> closing (fst (receive_loop orc h s bs))
       \<and> maxAttempts (fst (receive_loop orc h s bs)) = 1
       \<and> delivered (fst (snd (receive_loop orc h s bs))) = []
       \<and> snd (snd (receive_loop orc h s bs)) = None
       \<and> receive_loop orc h s bs = receive_loop orc h s (take 2 bs)"
proof -
  from assms obtain hi lo where bs: "bs = hi # lo # rest" "256 * unat hi + unat lo = 65535"
    by (auto simp: read_uint16_def split: list.splits)
  then have short: "read_uint16 (take 2 bs) = Some (65535, [])"
    by (simp add: read_uint16_def)
  obtain s1 e1 where c: "close (s\<lparr>remoteSeq := 65535\<rparr>) = (s1, e1)"
    by (cases "close (s\<lparr>remoteSeq := 65535\<rparr>)")
  have r: "receive_loop orc h s bs = (s1\<lparr>maxAttempts := 1\<rparr>, e1, None)"
    using assms c by (simp add: receive_loop.simps [of orc h s bs])
  have r': "receive_loop orc h s (take 2 bs) = (s1\<lparr>maxAttempts := 1\<rparr>, e1, None)"
    using short c by (simp add: receive_loop.simps [of orc h s "take 2 bs"])
  from c have "remoteSeq s1 = 65535" "closing s1" "delivered e1 = []"
    by (auto simp: close_def send_def end_stream_def Let_def split: if_splits option.splits)
  with r r' show ?thesis by simp
qed

theorem receive_close_sentinel_witness:
  "read_uint16 [255, 255, 0, 3, 5, 9, 0, 0] = Some (65535, [0, 3, 5, 9, 0, 0])
   \<and> remoteSeq (fst (receive_loop pair_oracle no_calls fresh [255, 255, 0, 3, 5, 9, 0, 0])) = 65535
   \<and> closing (fst (receive_loop pair_oracle no_calls fresh [255, 255, 0, 3, 5, 9, 0, 0]))
   \<and> maxAttempts (fst (receive_loop pair_oracle no_calls fresh [255, 255, 0, 3, 5, 9, 0, 0])) = 1
   \<and> delivered (fst (snd (receive_loop pair_oracle no_calls fresh [255, 255, 0, 3, 5, 9, 0, 0]))) = []
   \<and> receive_loop pair_oracle no_calls fresh [255, 255, 0, 3, 5, 9, 0, 0]
       = receive_loop pair_oracle no_calls fresh (take 2 [255, 255, 0, 3, 5, 9, 0, 0])"
proof -
  have a: "read_uint16 [255, 255, 0, 3, 5, 9, 0, 0] = Some (65535, [0, 3, 5, 9, 0, 0])"
    by (simp add: read_uint16_def)
  from receive_close_sentinel [OF a, of pair_oracle no_calls fresh] a show ?thesis
    by blast
qed

subsection \<open>send on a closing stream\<close>

text \<open>
  Claim C6, as amended. On a stream whose \<open>closing\<close> flag is set, \<^verbatim>\<open>send(item)\<close> does not
  append the item and does not increment \<open>localSeq\<close>; it does exactly what \<^verbatim>\<open>send()\<close>
  without an item does: nothing if a send is already scheduled, otherwise \<^verbatim>\<open>end()\<close> if the
  attempts are used up, and otherwise it schedules a send.
\<close>

theorem send_while_closing:
  assumes "closing s"
  shows "items (fst (send (Some m) s)) = items s
       \<and> localSeq (fst (send (Some m) s)) = localSeq s
       \<and> send (Some m) s = send None s
       \<and> send (Some m) s =
           (if sendHandle s then (s, [])
            else if maxAttempts s \<le> attempts s then end_stream s
            else (s\<lparr>sendHandle := True\<rparr>, []))"
  using assms by (simp add: send_def end_stream_def)

theorem send_while_closing_witness:
  "closing closing_idle
   \<and> items (fst (send (Some (5, 7)) closing_idle)) = items closing_idle
   \<and> localSeq (fst (send (Some (5, 7)) closing_idle)) = localSeq closing_idle
   \<and> send (Some (5, 7)) closing_idle = (closing_idle\<lparr>sendHandle := True\<rparr>, [])"
proof -
  have c: "closing closing_idle"
    by (simp add: closing_idle_def fixture_defs eval_defs)
  have idle: "\<not> sendHandle closing_idle" "\<not> maxAttempts closing_idle \<le> attempts closing_idle"
    by (simp_all add: closing_idle_def fixture_defs eval_defs)
  note w = send_while_closing [OF c, of "(5, 7)"]
  from w have "send (Some (5, 7)) closing_idle =
      (if sendHandle closing_idle then (closing_idle, [])
       else if maxAttempts closing_idle \<le> attempts closing_idle then end_stream closing_idle
       else (closing_idle\<lparr>sendHandle := True\<rparr>, []))"
    by blast
  with idle have "send (Some (5, 7)) closing_idle = (closing_idle\<lparr>sendHandle := True\<rparr>, [])"
    by simp
  with w c show ?thesis by blast
qed

text \<open>
  Claim C6 as stated fails: on a closing stream with no send scheduled, \<^verbatim>\<open>send(item)\<close>
  schedules one, and after four unanswered retries it ends the stream and calls \<open>onClose\<close>.
\<close>

theorem send_while_closing_counterexample:
  "closing closing_idle
   \<and> send (Some (5, 7)) closing_idle \<noteq> (closing_idle, [])
   \<and> sendHandle (fst (send (Some (5, 7)) closing_idle))
   \<and> closing closing_spent
   \<and> snd (send (Some (5, 7)) closing_spent) = [Closed ()]"
  by (simp add: closing_idle_def closing_spent_def fixture_defs eval_defs)

subsection \<open>The onClose callback\<close>

lemma closed_count_append [simp]:
  "closed_count (e1 @ e2) = closed_count e1 + closed_count e2"
  by (simp add: closed_count_def)

lemma closed_count_simps [simp]:
  "closed_count [] = 0"
  "closed_count (Closed k # ev) = Suc (closed_count ev)"
  "closed_count (Delivered q m # ev) = closed_count ev"
  "closed_count (Transmit r d # ev) = closed_count ev"
  by (simp_all add: closed_count_def)

lemma fired_refl: "fired s s []"
  by (auto simp: fired_def)

lemma fired_trans: "fired s s1 e1 \<Longrightarrow> fired s1 s2 e2 \<Longrightarrow> fired s s2 (e1 @ e2)"
  by (auto simp: fired_def split: if_splits)

lemma fired_end_stream: "end_stream s = (s', ev) \<Longrightarrow> fired s s' ev"
  by (auto simp: end_stream_def fired_def split: option.splits)

lemma fired_send: "send item s = (s', ev) \<Longrightarrow> fired s s' ev"
  by (auto simp: send_def end_stream_def fired_def Let_def split: option.splits if_splits)

lemma fired_close: "close s = (s', ev) \<Longrightarrow> fired s s' ev"
  by (auto simp: close_def send_def end_stream_def fired_def Let_def split: option.splits if_splits)

lemma fired_run_call: "run_call c s = (s', ev) \<Longrightarrow> fired s s' ev"
  by (cases c) (auto intro: fired_send fired_close fired_end_stream)

lemma fired_run_calls: "run_calls cs s = (s', ev) \<Longrightarrow> fired s s' ev"
proof (induction cs arbitrary: s s' ev)
  case Nil
  then show ?case by (simp add: fired_refl)
next
  case (Cons c cs)
  obtain s1 e1 where c: "run_call c s = (s1, e1)" by (cases "run_call c s")
  obtain s2 e2 where cs: "run_calls cs s1 = (s2, e2)" by (cases "run_calls cs s1")
  from Cons.prems c cs have "s' = s2" "ev = e1 @ e2" by simp_all
  with fired_run_call [OF c] Cons.IH [OF cs] show ?case by (simp add: fired_trans)
qed

lemma fired_receive_loop:
  "fired s (fst (receive_loop orc h s bs)) (fst (snd (receive_loop orc h s bs)))"
proof (rule receive_loop_rule
    [where Q = "\<lambda>s bs r. fired s (fst r) (fst (snd r))" and orc = orc and h = h], goal_cases)
  case (1 s bs)
  show ?case by (simp add: fired_refl)
next
  case (2 s bs rest)
  show ?case by (simp add: fired_refl)
next
  case (3 s bs rest s1 e1)
  from fired_close [OF 3(2)] show ?case by (auto simp: fired_def)
next
  case (4 s bs seq rest s1 e1)
  then have "fired s s1 e1"
    by (auto simp: fired_refl intro: fired_send split: if_splits)
  then show ?case by (auto simp: fired_def)
next
  case (5 s bs seq rest s1 e1 item n s2 e2 s3 e3 x calls)
  from 5(5) have a: "fired s (s1\<lparr>remoteSeq := seq\<rparr>) e1"
    by (auto simp: fired_def send_def end_stream_def Let_def split: if_splits option.splits)
  have b: "fired (s1\<lparr>remoteSeq := seq\<rparr>) (s1\<lparr>remoteSeq := seq\<rparr>) [Delivered seq item]"
    by (auto simp: fired_def)
  note c = fired_run_calls [OF 5(7)]
  from 5(9) have d: "fired s2 s3 e3" by simp
  from fired_trans [OF a fired_trans [OF b fired_trans [OF c d]]] show ?case by simp
next
  case (6 s bs seq rest)
  then show ?case by simp
next
  case (7 s bs seq rest s1 e1 item n s2 e2 calls e)
  from 7(5) have a: "fired s (s1\<lparr>remoteSeq := seq\<rparr>) e1"
    by (auto simp: fired_def send_def end_stream_def Let_def split: if_splits option.splits)
  have b: "fired (s1\<lparr>remoteSeq := seq\<rparr>) (s1\<lparr>remoteSeq := seq\<rparr>) [Delivered seq item]"
    by (auto simp: fired_def)
  note c = fired_run_calls [OF 7(7)]
  from fired_trans [OF a fired_trans [OF b c]] show ?case by simp
qed

lemma fired_receive: "receive orc h s bs = (s', ev, x) \<Longrightarrow> fired s s' ev"
proof -
  assume r: "receive orc h s bs = (s', ev, x)"
  show ?thesis
  proof (cases "read_uint16 bs")
    case None
    with r show ?thesis by (auto simp: receive_def fired_refl)
  next
    case (Some a)
    obtain ack rest where a: "a = (ack, rest)" by (cases a)
    let ?s1 = "s\<lparr>items := shift_acked (items s) ack, attempts := 0\<rparr>"
    let ?s2 = "?s1\<lparr>retryInterval := MIN_RETRY_INTERVAL, retryHandle := False\<rparr>"
    show ?thesis
    proof (cases "ack = 65535")
      case True
      with r Some a show ?thesis
        by (auto simp: receive_def end_stream_def fired_def split: option.splits)
    next
      case False
      with r Some a have "receive_loop orc h ?s2 rest = (s', ev, x)"
        by (simp add: receive_def)
      with fired_receive_loop [of ?s2 orc h rest] show ?thesis
        by (auto simp: fired_def)
    qed
  qed
qed

lemma fired_send_tick: "send_tick orc s = (s', ev, x) \<Longrightarrow> fired s s' ev"
  by (auto simp: send_tick_def fired_def Let_def split: sum.splits if_splits)

lemma fired_step: "step orc h a s = (s', ev) \<Longrightarrow> fired s s' ev"
proof (cases a)
  case (OpReceive bs)
  assume "step orc h a s = (s', ev)"
  with OpReceive obtain x where "receive orc h s bs = (s', ev, x)"
    by (auto split: prod.splits)
  then show ?thesis by (rule fired_receive)
next
  case OpTick
  assume "step orc h a s = (s', ev)"
  with OpTick show ?thesis
    by (auto simp: fired_refl dest: fired_send_tick split: prod.splits if_splits)
qed (auto simp: fired_refl intro: fired_send fired_close fired_end_stream split: if_splits)

lemma fired_run_ops: "run_ops orc h ops s = (s', ev) \<Longrightarrow> fired s s' ev"
proof (induction ops arbitrary: s s' ev)
  case Nil
  then show ?case by (simp add: fired_refl)
next
  case (Cons a ops)
  obtain s1 e1 where a: "step orc h a s = (s1, e1)" by (cases "step orc h a s")
  obtain s2 e2 where r: "run_ops orc h ops s1 = (s2, e2)" by (cases "run_ops orc h ops s1")
  from Cons.prems a r have "s' = s2" "ev = e1 @ e2" by simp_all
  with fired_step [OF a] Cons.IH [OF r] show ?case by (simp add: fired_trans)
qed

lemma run_ops_append:
  "run_ops orc h (xs @ ys) s =
     (case run_ops orc h xs s of
        (s1, e1) \<Rightarrow> (case run_ops orc h ys s1 of (s2, e2) \<Rightarrow> (s2, e1 @ e2)))"
  by (induction xs arbitrary: s) (auto split: prod.splits)

lemma tears_down_clears:
  "tears_down a s \<Longrightarrow> onClose (fst (step orc h a s)) = None"
proof (cases a)
  case (OpSend item)
  assume "tears_down a s"
  with OpSend show ?thesis
    by (cases item) (auto simp: send_def end_stream_def Let_def)
next
  case (OpReceive bs)
  assume "tears_down a s"
  with OpReceive show ?thesis
    by (auto simp: receive_def end_stream_def split: option.splits prod.splits)
qed (auto simp: send_def close_def end_stream_def Let_def)

lemma run_ops_keeps_cleared:
  "onClose s = None \<Longrightarrow> onClose (fst (run_ops orc h ops s)) = None"
  using fired_run_ops [of orc h ops s "fst (run_ops orc h ops s)" "snd (run_ops orc h ops s)"]
  by (auto simp: fired_def)

text \<open>
  Claim C7. Over any sequence of calls on a constructed stream (\<^verbatim>\<open>send\<close>, \<^verbatim>\<open>close\<close>, \<^verbatim>\<open>end\<close>,
  \<^verbatim>\<open>receive\<close> of any frame, the scheduled send, the retry timer), with any item handler,
  \<open>onClose\<close> is called at most once; and it is called exactly once as soon as the sequence
  contains one call that reaches \<^verbatim>\<open>end()\<close> (\<^verbatim>\<open>end()\<close> itself, a frame with ack \<open>0xFFFF\<close>, or a
  send that finds the attempts used up), whatever comes before and after it.
\<close>

theorem on_close_exactly_once:
  "closed_count (snd (run_ops orc h ops (new_stream r v k))) \<le> 1
   \<and> (\<forall>xs a ys. ops = xs @ a # ys
          \<and> tears_down a (fst (run_ops orc h xs (new_stream r v k)))
        \<longrightarrow> closed_count (snd (run_ops orc h ops (new_stream r v k))) = 1)"
proof (intro conjI allI impI)
  let ?s0 = "new_stream r v k :: ('a, 'b) UdpStream"
  have f: "fired ?s0 (fst (run_ops orc h ops ?s0)) (snd (run_ops orc h ops ?s0))" for ops
    by (rule fired_run_ops) simp
  from f [of ops] show "closed_count (snd (run_ops orc h ops ?s0)) \<le> 1"
    by (auto simp: fired_def split: if_splits)
  fix xs a ys
  assume "ops = xs @ a # ys \<and> tears_down a (fst (run_ops orc h xs ?s0))"
  then have ops: "ops = xs @ a # ys" and t: "tears_down a (fst (run_ops orc h xs ?s0))"
    by simp_all
  obtain s1 e1 where xs: "run_ops orc h xs ?s0 = (s1, e1)" by (cases "run_ops orc h xs ?s0")
  obtain s2 e2 where a: "step orc h a s1 = (s2, e2)" by (cases "step orc h a s1")
  from t xs a tears_down_clears [of a s1 orc h] have "onClose s2 = None" by simp
  then have "onClose (fst (run_ops orc h ys s2)) = None" by (rule run_ops_keeps_cleared)
  with xs a ops have "onClose (fst (run_ops orc h ops ?s0)) = None"
    by (auto simp: run_ops_append split: prod.splits)
  with f [of ops] show "closed_count (snd (run_ops orc h ops ?s0)) = 1"
    by (auto simp: fired_def new_stream_def split: if_splits)
qed

theorem on_close_exactly_once_witness:
  "closed_count (snd (run_ops pair_oracle no_calls
      [OpClose, OpTick, OpRetry, OpTick, OpRetry, OpTick, OpRetry, OpTick, OpRetry, OpTick,
       OpRetry, OpEnd, OpReceive [255, 255], OpClose] fresh)) = 1"
proof -
  let ?xs = "[OpClose, OpTick, OpRetry, OpTick, OpRetry, OpTick, OpRetry, OpTick, OpRetry, OpTick]
               :: (byte \<times> byte) op list"
  have s: "retryHandle closing_spent" "\<not> sendHandle closing_spent"
    "maxAttempts closing_spent \<le> attempts closing_spent"
    by (simp_all add: closing_spent_def fixture_defs eval_defs)
  then have t: "?xs @ OpRetry # [OpEnd, OpReceive [255, 255], OpClose]
                  = ?xs @ OpRetry # [OpEnd, OpReceive [255, 255], OpClose]
                \<and> tears_down OpRetry (fst (run_ops pair_oracle no_calls ?xs
                     (new_stream \<lparr>port = 4000, address = ''10.0.0.2''\<rparr> 0 ())))"
    by (simp add: closing_spent_def fresh_def)
  from on_close_exactly_once [of pair_oracle no_calls
      "?xs @ OpRetry # [OpEnd, OpReceive [255, 255], OpClose]"
      "\<lparr>port = 4000, address = ''10.0.0.2''\<rparr>" 0 "()", THEN conjunct2, rule_format, OF t]
  show ?thesis by (simp only: fresh_def append.simps)
qed

subsection \<open>The order of the handler calls\<close>

lemma delivered_append [simp]: "delivered (e1 @ e2) = delivered e1 @ delivered e2"
  by (induction e1 rule: delivered.induct) simp_all

lemma in_order_quiet:
  "remoteSeq s' = remoteSeq s \<Longrightarrow> delivered ev = [] \<Longrightarrow> in_order s s' ev"
  by (simp add: in_order_def)

lemma in_order_trans:
  "in_order s s1 e1 \<Longrightarrow> in_order s1 s2 e2 \<Longrightarrow> in_order s s2 (e1 @ e2)"
  by (fastforce simp: in_order_def sorted_wrt_append)

lemma end_stream_quiet:
  "end_stream s = (s', ev) \<Longrightarrow> remoteSeq s' = remoteSeq s \<and> delivered ev = []"
  by (auto simp: end_stream_def split: option.splits)

lemma send_quiet:
  "send item s = (s', ev) \<Longrightarrow> remoteSeq s' = remoteSeq s \<and> delivered ev = []"
  by (auto simp: send_def end_stream_def Let_def split: option.splits if_splits)

lemma close_quiet:
  "close s = (s', ev) \<Longrightarrow> remoteSeq s' = remoteSeq s \<and> delivered ev = []"
  by (auto simp: close_def send_def end_stream_def Let_def split: option.splits if_splits)

lemma run_call_quiet:
  "run_call c s = (s', ev) \<Longrightarrow> remoteSeq s' = remoteSeq s \<and> delivered ev = []"
  by (cases c) (auto dest: send_quiet close_quiet end_stream_quiet)

lemma run_calls_quiet:
  "run_calls cs s = (s', ev) \<Longrightarrow> remoteSeq s' = remoteSeq s \<and> delivered ev = []"
proof (induction cs arbitrary: s s' ev)
  case Nil
  then show ?case by simp
next
  case (Cons c cs)
  obtain s1 e1 where c: "run_call c s = (s1, e1)" by (cases "run_call c s")
  obtain s2 e2 where cs: "run_calls cs s1 = (s2, e2)" by (cases "run_calls cs s1")
  from Cons.prems c cs have "s' = s2" "ev = e1 @ e2" by simp_all
  with run_call_quiet [OF c] Cons.IH [OF cs] show ?case by simp
qed

lemma send_tick_quiet:
  "send_tick orc s = (s', ev, x) \<Longrightarrow> remoteSeq s' = remoteSeq s \<and> delivered ev = []"
  by (auto simp: send_tick_def Let_def split: sum.splits if_splits)

lemma read_uint16_bound: "read_uint16 bs = Some (v, rest) \<Longrightarrow> v \<le> 65535"
proof -
  assume "read_uint16 bs = Some (v, rest)"
  then obtain hi lo :: byte where v: "v = 256 * unat hi + unat lo"
    by (auto simp: read_uint16_def split: list.splits)
  have "unat hi < 256" "unat lo < 256"
    using unsigned_less [of hi] unsigned_less [of lo] by simp_all
  with v show ?thesis by simp
qed

lemma in_order_receive_loop:
  "in_order s (fst (receive_loop orc h s bs)) (fst (snd (receive_loop orc h s bs)))"
proof (rule receive_loop_rule
    [where Q = "\<lambda>s bs r. in_order s (fst r) (fst (snd r))" and orc = orc and h = h], goal_cases)
  case (1 s bs)
  show ?case by (simp add: in_order_def)
next
  case (2 s bs rest)
  show ?case by (simp add: in_order_def)
next
  case (3 s bs rest s1 e1)
  from close_quiet [OF 3(2)] show ?case by (simp add: in_order_def)
next
  case (4 s bs seq rest s1 e1)
  then have "remoteSeq s1 = remoteSeq s \<and> delivered e1 = []"
    by (auto dest: send_quiet split: if_splits)
  with 4(4) read_uint16_bound [OF 4(1)] show ?case by (simp add: in_order_def)
next
  case (5 s bs seq rest s1 e1 item n s2 e2 s3 e3 x calls)
  from 5(5) have q1: "remoteSeq s1 = remoteSeq s \<and> delivered e1 = []"
    by (auto dest: send_quiet split: if_splits)
  from run_calls_quiet [OF 5(7)] have q2: "remoteSeq s2 = seq \<and> delivered e2 = []" by simp
  from 5(9) have io: "in_order s2 s3 e3" by simp
  from q1 q2 io 5(4) read_uint16_bound [OF 5(1)] show ?case
    by (fastforce simp: in_order_def)
next
  case (6 s bs seq rest)
  then show ?case by simp
next
  case (7 s bs seq rest s1 e1 item n s2 e2 calls e)
  from 7(5) have q1: "remoteSeq s1 = remoteSeq s \<and> delivered e1 = []"
    by (auto dest: send_quiet split: if_splits)
  from run_calls_quiet [OF 7(7)] have q2: "remoteSeq s2 = seq \<and> delivered e2 = []" by simp
  from q1 q2 7(4) read_uint16_bound [OF 7(1)] show ?case
    by (simp add: in_order_def)
qed

lemma in_order_receive: "receive orc h s bs = (s', ev, x) \<Longrightarrow> in_order s s' ev"
proof -
  assume r: "receive orc h s bs = (s', ev, x)"
  show ?thesis
  proof (cases "read_uint16 bs")
    case None
    with r show ?thesis by (auto simp: receive_def in_order_def)
  next
    case (Some a)
    obtain ack rest where a: "a = (ack, rest)" by (cases a)
    let ?s1 = "s\<lparr>items := shift_acked (items s) ack, attempts := 0\<rparr>"
    let ?s2 = "?s1\<lparr>retryInterval := MIN_RETRY_INTERVAL, retryHandle := False\<rparr>"
    show ?thesis
    proof (cases "ack = 65535")
      case True
      with r Some a show ?thesis
        by (auto simp: receive_def end_stream_def in_order_def split: option.splits)
    next
      case False
      with r Some a have "receive_loop orc h ?s2 rest = (s', ev, x)"
        by (simp add: receive_def)
      with in_order_receive_loop [of ?s2 orc h rest] show ?thesis
        by (simp add: in_order_def)
    qed
  qed
qed

lemma in_order_step: "step orc h a s = (s', ev) \<Longrightarrow> in_order s s' ev"
proof (cases a)
  case (OpReceive bs)
  assume "step orc h a s = (s', ev)"
  with OpReceive obtain x where "receive orc h s bs = (s', ev, x)"
    by (auto split: prod.splits)
  then show ?thesis by (rule in_order_receive)
next
  case OpTick
  assume "step orc h a s = (s', ev)"
  with OpTick show ?thesis
    by (auto simp: in_order_quiet dest: send_tick_quiet split: prod.splits if_splits)
qed (auto simp: in_order_quiet dest: send_quiet close_quiet end_stream_quiet split: if_splits)

lemma in_order_run_ops: "run_ops orc h ops s = (s', ev) \<Longrightarrow> in_order s s' ev"
proof (induction ops arbitrary: s s' ev)
  case Nil
  then show ?case by (simp add: in_order_def)
next
  case (Cons a ops)
  obtain s1 e1 where a: "step orc h a s = (s1, e1)" by (cases "step orc h a s")
  obtain s2 e2 where r: "run_ops orc h ops s1 = (s2, e2)" by (cases "run_ops orc h ops s1")
  from Cons.prems a r have "s' = s2" "ev = e1 @ e2" by simp_all
  with in_order_step [OF a] Cons.IH [OF r] show ?case by (simp add: in_order_trans)
qed

lemma handler_calls_strictly_increasing:
  "sorted_wrt (<) (delivered (snd (run_ops orc h ops (new_stream r v k))))"
  using in_order_run_ops [of orc h ops "new_stream r v k"
      "fst (run_ops orc h ops (new_stream r v k))" "snd (run_ops orc h ops (new_stream r v k))"]
  by (simp add: in_order_def new_stream_def)

lemma receive_loop_old_seq:
  "read_uint16 bs = Some (seq, rest) \<Longrightarrow> seq \<noteq> 0 \<Longrightarrow> seq \<noteq> 65535 \<Longrightarrow>
   seq \<le> remoteSeq s \<Longrightarrow>
   receive_loop orc h s bs = receive_loop orc h s rest"
  by (simp add: receive_loop.simps [of orc h s bs])

text \<open>
  Claim C1 at a failing input. A sender with one pending item \<open>(0, 9)\<close> emits the datagram
  \<open>1, 0,0, 0,1, 0,9, 0,0\<close>. The receiver hands the item to its handler under seq 1. When the
  same frame arrives again (a retransmission), the seq 1 is not new, the two payload
  bytes after it are not skipped and are read as the seq 9, the handler is called with
  an item decoded from the terminator, and \<open>remoteSeq\<close> is left at 9.
\<close>

theorem receive_duplicate_frame:
  "sendStream pair_oracle (fst (send (Some (0, 9)) fresh)) = Inr [1, 0, 0, 0, 1, 0, 9, 0, 0]
   \<and> snd (receive pair_oracle no_calls fresh [0, 0, 0, 1, 0, 9, 0, 0])
       = ([Delivered 1 (0, 9)], None)
   \<and> remoteSeq (fst (receive pair_oracle no_calls fresh [0, 0, 0, 1, 0, 9, 0, 0])) = 1
   \<and> fst (snd (receive pair_oracle no_calls
                  (fst (receive pair_oracle no_calls fresh [0, 0, 0, 1, 0, 9, 0, 0]))
                  [0, 0, 0, 1, 0, 9, 0, 0])) = [Delivered 9 (0, 0)]
   \<and> remoteSeq (fst (receive pair_oracle no_calls
                  (fst (receive pair_oracle no_calls fresh [0, 0, 0, 1, 0, 9, 0, 0]))
                  [0, 0, 0, 1, 0, 9, 0, 0])) = 9"
  by (simp add: fixture_defs eval_defs)

subsection \<open>Dispatch in the socket\<close>

lemma general_no_handler:
  "decode (soracle k) (sversion k) payload = Some (obj, n) \<Longrightarrow>
   handlers k (identify (soracle k) obj) = None \<Longrightarrow>
   handleMessage k (0 # payload) rinfo = (k, [], Some TypeError)"
  by (simp add: handleMessage_def GENERAL_def)

text \<open>
  Claim C8 at a failing input. The server has a general handler for type 5 only. A
  GENERAL datagram carrying a message of type 5 reaches that handler. One carrying a
  message of type 7 makes \<^verbatim>\<open>handleMessage\<close> raise a \<^verbatim>\<open>TypeError\<close> (the handler looked up is
  \<^verbatim>\<open>undefined\<close> and is called), where the claim has the datagram logged and dropped. The
  STREAM branch does test its handler: an item of type 7 on the client stream is reported
  through \<^verbatim>\<open>raiseError\<close> and nothing is raised.
\<close>

theorem general_without_handler:
  "handleMessage server_socket [0, 5, 1] peer = (server_socket, [HandlerCalled ''ping'' (5, 1)], None)
   \<and> handleMessage server_socket [0, 7, 1] peer = (server_socket, [], Some TypeError)
   \<and> snd (handleMessage client_socket [1, 0, 0, 0, 1, 7, 1, 0, 0] peer) = ([RaiseError], None)"
proof (intro conjI)
  have d5: "decode (soracle server_socket) (sversion server_socket) [5, 1] = Some ((5, 1), 2)"
    and d7: "decode (soracle server_socket) (sversion server_socket) [7, 1] = Some ((7, 1), 2)"
    and h5: "handlers server_socket (identify (soracle server_socket) (5, 1)) = Some ''ping''"
    and h7: "handlers server_socket (identify (soracle server_socket) (7, 1)) = None"
    by (simp_all add: socket_defs fixture_defs)
  from d5 h5 show "handleMessage server_socket [0, 5, 1] peer =
      (server_socket, [HandlerCalled ''ping'' (5, 1)], None)"
    by (simp add: handleMessage_def GENERAL_def)
  from d7 h7 show "handleMessage server_socket [0, 7, 1] peer = (server_socket, [], Some TypeError)"
    by (simp add: handleMessage_def GENERAL_def)
  show "snd (handleMessage client_socket [1, 0, 0, 0, 1, 7, 1, 0, 0] peer) = ([RaiseError], None)"
    by (simp add: socket_defs fixture_defs eval_defs)
qed

lemma update_absent:
  "map_of tbl key = None \<Longrightarrow> AList.update key v tbl = tbl @ [(key, v)]"
  by (induction tbl) (auto split: if_splits)

lemma handleClose_keeps:
  "handleClose userData r k = (k', ev) \<Longrightarrow>
     heap k' = heap k \<and> streams k' = streams k \<and> \<not> list_ex is_OpenHandlerCalled ev"
  by (auto simp: handleClose_def socket_end_def Let_def split: option.splits if_splits)

lemma stream_end_server:
  assumes tbl: "streams k = Some tbl" and st: "heap k r = Some st"
    and oc: "onClose st = None \<or> onClose st = Some (ServerClose remoteId r)"
  shows "heap (fst (stream_end k r)) r = Some (fst (end_stream st))
       \<and> (streams (fst (stream_end k r)) = Some tbl
          \<or> streams (fst (stream_end k r)) = Some (AList.delete remoteId tbl)
            \<and> (\<exists>ud. map_of tbl remoteId = Some (r, ud)))
       \<and> \<not> list_ex is_OpenHandlerCalled (fst (snd (stream_end k r)))"
proof (cases "onClose st")
  case None
  with tbl st show ?thesis
    by (simp add: stream_end_def end_stream_def)
next
  case (Some c)
  with oc have c: "c = ServerClose remoteId r" by simp
  show ?thesis
  proof (cases "map_of tbl remoteId")
    case None
    with tbl st Some c show ?thesis
      by (simp add: stream_end_def end_stream_def)
  next
    case (Some e)
    obtain r' ud where e: "e = (r', ud)" by (cases e)
    show ?thesis
    proof (cases "r' = r")
      case False
      with tbl st \<open>onClose st = Some c\<close> c Some e show ?thesis
        by (simp add: stream_end_def end_stream_def)
    next
      case True
      let ?k1 = "k\<lparr>heap := (heap k)(r \<mapsto> fst (end_stream st)),
                   streams := Some (AList.delete remoteId tbl)\<rparr>"
      obtain k' ev where h: "handleClose (Some ud) r ?k1 = (k', ev)"
        by (cases "handleClose (Some ud) r ?k1")
      from handleClose_keeps [OF h] True tbl st \<open>onClose st = Some c\<close> c Some e h
      show ?thesis
        by (simp add: stream_end_def end_stream_def)
    qed
  qed
qed

text \<open>
  Claim C9. When the connect handler of the provisional stream stored under \<open>r\<close> resolves:
  if it returned user data and the remote has no entry, the stream is entered under the
  remote (and, in the revision that has one, the open handler is called); otherwise
  nothing is entered, no open handler is called, the provisional stream is ended, and the
  table is as before, except that the entry of the remote is removed when it was this
  very stream. A table with one entry per remote has one entry per remote afterwards.
\<close>

theorem connect_resolution:
  assumes tbl: "streams k = Some tbl" and st: "heap k r = Some st"
    and oc: "onClose st = None \<or> onClose st = Some (ServerClose remoteId r)"
  shows "(userData = Some ud \<and> map_of tbl remoteId = None \<longrightarrow>
            connect_resolved k remoteId r userData =
              (k\<lparr>streams := Some (tbl @ [(remoteId, (r, ud))])\<rparr>, [], None)
          \<and> connect_resolved_open k remoteId r userData =
              (k\<lparr>streams := Some (tbl @ [(remoteId, (r, ud))])\<rparr>,
               (case openHandler k of
                  None \<Rightarrow> []
                | Some handler \<Rightarrow> [OpenHandlerCalled handler ud r]),
               None))
       \<and> (userData = None \<or> map_of tbl remoteId \<noteq> None \<longrightarrow>
            connect_resolved k remoteId r userData = stream_end k r
          \<and> connect_resolved_open k remoteId r userData = stream_end k r
          \<and> heap (fst (stream_end k r)) r = Some (fst (end_stream st))
          \<and> (streams (fst (stream_end k r)) = Some tbl
             \<or> streams (fst (stream_end k r)) = Some (AList.delete remoteId tbl)
               \<and> (\<exists>ud'. map_of tbl remoteId = Some (r, ud')))
          \<and> \<not> list_ex is_OpenHandlerCalled (fst (snd (stream_end k r))))
       \<and> (distinct (map fst tbl) \<longrightarrow>
            (\<forall>tbl'. streams (fst (connect_resolved k remoteId r userData)) = Some tbl'
                    \<or> streams (fst (connect_resolved_open k remoteId r userData)) = Some tbl'
               \<longrightarrow> distinct (map fst tbl')))"
proof (intro conjI impI allI)
  assume a: "userData = Some ud \<and> map_of tbl remoteId = None"
  with tbl show "connect_resolved k remoteId r userData =
      (k\<lparr>streams := Some (tbl @ [(remoteId, (r, ud))])\<rparr>, [], None)"
    by (simp add: connect_resolved_def update_absent)
  from a tbl show "connect_resolved_open k remoteId r userData =
      (k\<lparr>streams := Some (tbl @ [(remoteId, (r, ud))])\<rparr>,
       (case openHandler k of None \<Rightarrow> [] | Some handler \<Rightarrow> [OpenHandlerCalled handler ud r]),
       None)"
    by (simp add: connect_resolved_open_def update_absent)
next
  assume b: "userData = None \<or> map_of tbl remoteId \<noteq> None"
  with tbl show "connect_resolved k remoteId r userData = stream_end k r"
    by (auto simp: connect_resolved_def split: option.splits)
  from b tbl show "connect_resolved_open k remoteId r userData = stream_end k r"
    by (auto simp: connect_resolved_open_def split: option.splits)
  from stream_end_server [OF tbl st oc]
  show "heap (fst (stream_end k r)) r = Some (fst (end_stream st))"
    and "streams (fst (stream_end k r)) = Some tbl
         \<or> streams (fst (stream_end k r)) = Some (AList.delete remoteId tbl)
           \<and> (\<exists>ud'. map_of tbl remoteId = Some (r, ud'))"
    and "\<not> list_ex is_OpenHandlerCalled (fst (snd (stream_end k r)))"
    by blast+
next
  fix tbl'
  assume d: "distinct (map fst tbl)"
    and r: "streams (fst (connect_resolved k remoteId r userData)) = Some tbl'
          \<or> streams (fst (connect_resolved_open k remoteId r userData)) = Some tbl'"
  have e: "streams (fst (stream_end k r)) = Some tbl' \<Longrightarrow> distinct (map fst tbl')"
    using stream_end_server [OF tbl st oc] d by (auto simp: distinct_delete)
  have u: "distinct (map fst (AList.update remoteId v tbl))" for v
    using d by (rule distinct_update)
  from r show "distinct (map fst tbl')"
  proof
    assume "streams (fst (connect_resolved k remoteId r userData)) = Some tbl'"
    with tbl e u show ?thesis
      by (auto simp: connect_resolved_def split: option.splits if_splits)
  next
    assume "streams (fst (connect_resolved_open k remoteId r userData)) = Some tbl'"
    with tbl e u show ?thesis
      by (auto simp: connect_resolved_open_def split: option.splits if_splits)
  qed
qed

lemma pending_two_streams: "streams pending_two = Some []"
  by (simp add: pending_two_def socket_defs fixture_defs eval_defs peer_id dispatch.simps)

lemma pending_two_heap:
  "heap pending_two 0 = Some (provisional 0)" "heap pending_two 1 = Some (provisional 1)"
  by (simp_all add: pending_two_def provisional_def socket_defs fixture_defs eval_defs peer_id)

lemma pending_two_calls:
  "snd (handleMessage server_socket [1, 0, 0, 0, 1, 5, 1, 0, 0] peer) =
     ([ConnectHandlerCalled ''hello'' (5, 1) 0], None)"
  by (simp add: socket_defs fixture_defs eval_defs peer_id)

theorem connect_resolution_witness:
  "connect_resolved pending_two ''10.0.0.9:5000'' 0 (Some ''alice'') = (accepted_first, [], None)
   \<and> connect_resolved_open (pending_two\<lparr>openHandler := Some ''opened''\<rparr>)
         ''10.0.0.9:5000'' 0 (Some ''alice'')
       = (accepted_first\<lparr>openHandler := Some ''opened''\<rparr>,
          [OpenHandlerCalled ''opened'' ''alice'' 0], None)
   \<and> connect_resolved accepted_first ''10.0.0.9:5000'' 1 (Some ''bob'')
       = stream_end accepted_first 1
   \<and> heap (fst (stream_end accepted_first 1)) 1 = Some (fst (end_stream (provisional 1)))
   \<and> streams (fst (stream_end accepted_first 1)) = Some [(''10.0.0.9:5000'', (0, ''alice''))]
   \<and> fst (snd (stream_end accepted_first 1)) = []"
proof -
  have oc: "onClose (provisional r) = None
            \<or> onClose (provisional r) = Some (ServerClose ''10.0.0.9:5000'' r)" for r
    by (simp add: provisional_def new_stream_def)
  have a: "connect_resolved pending_two ''10.0.0.9:5000'' 0 (Some ''alice'')
             = (accepted_first, [], None)"
    using connect_resolution [OF pending_two_streams pending_two_heap(1) oc,
        of "Some ''alice''" "''alice''"]
    by (simp add: accepted_first_def)
  have s': "streams (pending_two\<lparr>openHandler := Some ''opened''\<rparr>) = Some []"
    and h': "heap (pending_two\<lparr>openHandler := Some ''opened''\<rparr>) 0 = Some (provisional 0)"
    by (simp_all add: pending_two_streams pending_two_heap)
  have b: "connect_resolved_open (pending_two\<lparr>openHandler := Some ''opened''\<rparr>)
             ''10.0.0.9:5000'' 0 (Some ''alice'')
           = (accepted_first\<lparr>openHandler := Some ''opened''\<rparr>,
              [OpenHandlerCalled ''opened'' ''alice'' 0], None)"
    using connect_resolution [OF s' h' oc, of "Some ''alice''" "''alice''"]
    by (simp add: accepted_first_def)
  have s3: "streams accepted_first = Some [(''10.0.0.9:5000'', (0, ''alice''))]"
    and h3: "heap accepted_first 1 = Some (provisional 1)"
    using pending_two_heap(2) by (simp_all add: accepted_first_def)
  note c = connect_resolution [OF s3 h3 oc, of "Some ''bob''" "''bob''"]
  from c have c1: "connect_resolved accepted_first ''10.0.0.9:5000'' 1 (Some ''bob'')
                     = stream_end accepted_first 1"
    and c2: "heap (fst (stream_end accepted_first 1)) 1 = Some (fst (end_stream (provisional 1)))"
    and c3: "streams (fst (stream_end accepted_first 1)) = Some [(''10.0.0.9:5000'', (0, ''alice''))]"
    by simp_all
  have c4: "fst (snd (stream_end accepted_first 1)) = []"
    using s3 h3 by (simp add: stream_end_def end_stream_def provisional_def new_stream_def)
  from a b c1 c2 c3 c4 show ?thesis by blast
qed

lemma rejected_stream_end_raises:
  "snd (connect_resolved pending_two ''10.0.0.9:5000'' 0 None) = ([], Some TypeError)
   \<and> heap (fst (connect_resolved pending_two ''10.0.0.9:5000'' 0 None)) 0
       = Some (fst (end_stream (provisional 0)))"
  using pending_two_streams pending_two_heap(1)
  by (simp add: connect_resolved_def stream_end_def end_stream_def provisional_def new_stream_def)

lemma run_on_close_heap: "heap (fst (run_on_close c k)) = heap k"
  by (cases c)
    (auto simp: handleClose_def socket_end_def Let_def split: option.splits prod.splits if_splits)

lemma dispatch_heap: "heap (fst (dispatch deliver ev k)) = heap k"
proof (induction ev arbitrary: k)
  case Nil
  show ?case by simp
next
  case (Cons a ev)
  show ?case
  proof (cases a)
    case (Delivered seq item)
    with Cons.IH [of k] show ?thesis by (auto split: prod.splits)
  next
    case (Transmit r d)
    with Cons.IH [of k] show ?thesis by (auto split: prod.splits)
  next
    case (Closed c)
    obtain k1 e1 x where c: "run_on_close c k = (k1, e1, x)" by (cases "run_on_close c k")
    with run_on_close_heap [of c k] have h: "heap k1 = heap k" by simp
    with Closed c Cons.IH [of k1] show ?thesis
      by (cases x) (auto split: prod.splits)
  qed
qed

lemma feed_heap:
  "heap (fst (feed k r st calls deliver payload)) =
     (heap k)(r \<mapsto> fst (receive (soracle k) calls st payload))"
proof -
  obtain st' ev x where rc: "receive (soracle k) calls st payload = (st', ev, x)"
    by (cases "receive (soracle k) calls st payload")
  let ?k1 = "k\<lparr>heap := (heap k)(r \<mapsto> st')\<rparr>"
  obtain k' es y where d: "dispatch deliver ev ?k1 = (k', es, y)"
    by (cases "dispatch deliver ev ?k1")
  with dispatch_heap [of deliver ev ?k1] have "heap k' = (heap k)(r \<mapsto> st')" by simp
  with rc d show ?thesis by (simp add: feed_def split: option.splits)
qed

text \<open>
  Claim C10. When the socket has a client stream, a STREAM datagram is given to that
  stream's \<^verbatim>\<open>receive\<close> whatever its source: the result of \<^verbatim>\<open>handleMessage\<close> is the same for
  any two source addresses, it is \<^verbatim>\<open>receive\<close> on the payload with the item handler of the
  client branch, and the stream object afterwards is what that \<^verbatim>\<open>receive\<close> makes of it.
\<close>

theorem client_stream_takes_every_frame:
  assumes "stream k = Some r" and "heap k r = Some st"
  shows "handleMessage k (1 # payload) rinfo = handleMessage k (1 # payload) rinfo'
       \<and> handleMessage k (1 # payload) rinfo =
           feed k r st (client_calls k st) client_deliver payload
       \<and> heap (fst (handleMessage k (1 # payload) rinfo)) r =
           Some (fst (receive (soracle k) (client_calls k st) st payload))"
  using assms by (simp add: handleMessage_def GENERAL_def STREAM_def feed_heap)

theorem client_stream_takes_every_frame_witness:
  "stream client_socket = Some 0
   \<and> remote (the (heap client_socket 0)) = \<lparr>port = 4000, address = ''10.0.0.2''\<rparr>
   \<and> items (the (heap client_socket 0)) = [(1, (5, 1))]
   \<and> handleMessage client_socket [1, 0, 1, 0, 1, 5, 9, 0, 0] peer
       = handleMessage client_socket [1, 0, 1, 0, 1, 5, 9, 0, 0] \<lparr>port = 4000, address = ''10.0.0.2''\<rparr>
   \<and> items (the (heap (fst (handleMessage client_socket [1, 0, 1, 0, 1, 5, 9, 0, 0] peer)) 0)) = []
   \<and> snd (handleMessage client_socket [1, 0, 1, 0, 1, 5, 9, 0, 0] peer)
       = ([StreamHandlerCalled ''data'' (5, 9) None (Some 0)], None)"
proof -
  let ?st = "fst (send (Some (5, 1))
                (new_stream \<lparr>port = 4000, address = ''10.0.0.2''\<rparr> 0 (ClientClose 0)))
             :: (byte \<times> byte, on_close) UdpStream"
  have s: "stream client_socket = Some 0" and h: "heap client_socket 0 = Some ?st"
    by (simp_all add: socket_defs)
  note w = client_stream_takes_every_frame [OF s h, of "[0, 1, 0, 1, 5, 9, 0, 0]" peer
      "\<lparr>port = 4000, address = ''10.0.0.2''\<rparr>"]
  have r: "remote ?st = \<lparr>port = 4000, address = ''10.0.0.2''\<rparr>" "items ?st = [(1, (5, 1))]"
    by (simp_all add: fixture_defs eval_defs)
  have i: "items (fst (receive (soracle client_socket) (client_calls client_socket ?st) ?st
             [0, 1, 0, 1, 5, 9, 0, 0])) = []"
    by (simp add: socket_defs fixture_defs eval_defs)
  have e: "snd (handleMessage client_socket [1, 0, 1, 0, 1, 5, 9, 0, 0] peer)
             = ([StreamHandlerCalled ''data'' (5, 9) None (Some 0)], None)"
    by (simp add: socket_defs fixture_defs eval_defs)
  from w have w1: "handleMessage client_socket [1, 0, 1, 0, 1, 5, 9, 0, 0] peer
      = handleMessage client_socket [1, 0, 1, 0, 1, 5, 9, 0, 0] \<lparr>port = 4000, address = ''10.0.0.2''\<rparr>"
    by blast
  from w have w2: "heap (fst (handleMessage client_socket [1, 0, 1, 0, 1, 5, 9, 0, 0] peer)) 0
      = Some (fst (receive (soracle client_socket) (client_calls client_socket ?st) ?st
          [0, 1, 0, 1, 5, 9, 0, 0]))"
    by blast
  have w3: "items (the (heap (fst (handleMessage client_socket
      [1, 0, 1, 0, 1, 5, 9, 0, 0] peer)) 0)) = []"
    by (simp only: w2 option.sel i)
  from h r have h': "remote (the (heap client_socket 0)) = \<lparr>port = 4000, address = ''10.0.0.2''\<rparr>"
    "items (the (heap client_socket 0)) = [(1, (5, 1))]"
    by simp_all
  from s h' w1 w3 e show ?thesis by blast
qed

text \<open>
  A client whose stream handler ends the stream receives a frame with two items. The
  first call ends the stream and the closure clears \<^verbatim>\<open>this.stream\<close>; for the second item a
  send is scheduled as for any new item, the handler is handed \<^verbatim>\<open>null\<close>, and its call of
  \<^verbatim>\<open>end()\<close> on it raises.
\<close>

lemma client_handler_after_end:
  "snd (handleMessage client_ending [1, 0, 0, 0, 1, 5, 7, 0, 2, 5, 8, 0, 0] peer) =
     ([StreamHandlerCalled ''data'' (5, 7) None (Some 0), TransportClosed,
       StreamHandlerCalled ''data'' (5, 8) None None], Some TypeError)
   \<and> sendHandle (the (heap (fst (handleMessage client_ending
        [1, 0, 0, 0, 1, 5, 7, 0, 2, 5, 8, 0, 0] peer)) 0))
   \<and> stream (fst (handleMessage client_ending
        [1, 0, 0, 0, 1, 5, 7, 0, 2, 5, 8, 0, 0] peer)) = None"
  by (simp add: socket_defs fixture_defs eval_defs)

end
